theory Spec2Isabelle
  imports Main "HOL-Library.Sublist" "HOL-Library.AList" "HOL-Library.Monad_Syntax"
begin

section \<open>Strings\<close>

text \<open>
  A Python \<open>str\<close> is modelled by the list of the bytes of its UTF-8 encoding, so that
  \<open>urllib.parse.quote\<close>, which encodes the UTF-8 bytes, is modelled exactly. A character
  is then one to four bytes; no encoding of a character is the beginning or the end of
  the encoding of another, so that a character at either end of a string is recognised
  by its bytes. A string with a lone surrogate has no UTF-8 encoding and is not modelled.
\<close>

definition ord :: "char \<Rightarrow> nat" where
  "ord c = of_char c"

definition whitespace :: "string list" where
  \<comment> \<open>the characters that \<open>str.isspace\<close> and \<open>str.strip\<close> take for whitespace, in UTF-8:
      U+0009 to U+000D, U+001C to U+001F, U+0020, U+0085, U+00A0, U+1680,
      U+2000 to U+200A, U+2028, U+2029, U+202F, U+205F and U+3000\<close>
  "whitespace =
     [[CHR 0x09], [CHR 0x0A], [CHR 0x0B], [CHR 0x0C], [CHR 0x0D],
      [CHR 0x1C], [CHR 0x1D], [CHR 0x1E], [CHR 0x1F], [CHR 0x20],
      [CHR 0xC2, CHR 0x85], [CHR 0xC2, CHR 0xA0], [CHR 0xE1, CHR 0x9A, CHR 0x80],
      [CHR 0xE2, CHR 0x80, CHR 0x80], [CHR 0xE2, CHR 0x80, CHR 0x81],
      [CHR 0xE2, CHR 0x80, CHR 0x82], [CHR 0xE2, CHR 0x80, CHR 0x83],
      [CHR 0xE2, CHR 0x80, CHR 0x84], [CHR 0xE2, CHR 0x80, CHR 0x85],
      [CHR 0xE2, CHR 0x80, CHR 0x86], [CHR 0xE2, CHR 0x80, CHR 0x87],
      [CHR 0xE2, CHR 0x80, CHR 0x88], [CHR 0xE2, CHR 0x80, CHR 0x89],
      [CHR 0xE2, CHR 0x80, CHR 0x8A], [CHR 0xE2, CHR 0x80, CHR 0xA8],
      [CHR 0xE2, CHR 0x80, CHR 0xA9], [CHR 0xE2, CHR 0x80, CHR 0xAF],
      [CHR 0xE2, CHR 0x81, CHR 0x9F], [CHR 0xE3, CHR 0x80, CHR 0x80]]"

function strip_left :: "string list \<Rightarrow> string \<Rightarrow> string" where
  \<comment> \<open>\<open>s\<close> without the characters of \<open>ws\<close> it begins with\<close>
  "strip_left ws s =
     (case List.find (\<lambda>w. w \<noteq> [] \<and> prefix w s) ws of
        None \<Rightarrow> s
      | Some w \<Rightarrow> strip_left ws (drop (length w) s))"
  by pat_completeness auto
termination
proof (relation "measure (\<lambda>(ws, s). length s)")
  show "wf (measure (\<lambda>(ws, s). length s))" by simp
next
  fix ws :: "string list" and s w :: string
  assume "List.find (\<lambda>w. w \<noteq> [] \<and> prefix w s) ws = Some w"
  then have "w \<noteq> []" and "prefix w s"
    by (auto simp: find_Some_iff)
  then have "s \<noteq> []" by auto
  with \<open>w \<noteq> []\<close> show "((ws, drop (length w) s), (ws, s)) \<in> measure (\<lambda>(ws, s). length s)"
    by simp
qed

declare strip_left.simps [simp del]

definition strip_right :: "string list \<Rightarrow> string \<Rightarrow> string" where
  \<comment> \<open>\<open>s\<close> without the characters of \<open>ws\<close> it ends with\<close>
  "strip_right ws s = rev (strip_left (map rev ws) (rev s))"

definition strip :: "string \<Rightarrow> string" where
  \<comment> \<open>\<open>str.strip()\<close>: without leading and trailing whitespace\<close>
  "strip s = strip_right whitespace (strip_left whitespace s)"

definition isspace :: "string \<Rightarrow> bool" where
  \<comment> \<open>\<open>str.isspace()\<close>: at least one character, and all of them whitespace\<close>
  "isspace s = (s \<noteq> [] \<and> strip_left whitespace s = [])"

subsection \<open>Percent encoding\<close>

definition always_safe :: "char \<Rightarrow> bool" where
  \<comment> \<open>the unreserved characters of \<open>urllib.parse\<close>: letters, digits and \<open>_.-~\<close>\<close>
  "always_safe c =
     ((65 \<le> ord c \<and> ord c \<le> 90) \<or> (97 \<le> ord c \<and> ord c \<le> 122) \<or> (48 \<le> ord c \<and> ord c \<le> 57)
      \<or> c \<in> set ''_.-~'')"

definition hexdigit :: "nat \<Rightarrow> char" where
  "hexdigit k = ''0123456789ABCDEF'' ! (k mod 16)"

definition quote_char :: "char \<Rightarrow> string" where
  \<comment> \<open>\<open>quote\<close> is called with its default \<open>safe='/'\<close>\<close>
  "quote_char c =
     (if always_safe c \<or> c = CHR ''/'' then [c]
      else [CHR ''%'', hexdigit (ord c div 16), hexdigit (ord c mod 16)])"

definition quote :: "string \<Rightarrow> string" where
  "quote s = concat (map quote_char s)"



section \<open>Outcomes of a run\<close>

text \<open>
  \<open>urlopen\<close> raises \<open>HTTPError\<close> (status code and reason phrase) or \<open>URLError\<close> (reason).
  \<open>sys.exit\<close> and \<open>exit\<close> raise \<open>SystemExit\<close> carrying a message or the caught error.
\<close>

datatype net_error = HTTPError nat string | URLError string

datatype exit_code = Msg string | Err net_error

datatype exn =
    SystemExit exit_code
  | NetError net_error
  | AttributeError
  | TypeError
  | KeyError
  | ValueError
  | IndexError
  | EOFError
  | XMLSyntaxError
  | JSONDecodeError

datatype event = Urlopen string | Print string | Input string

section \<open>Replacing, splitting, numbers and indexing\<close>

function replace :: "string \<Rightarrow> string \<Rightarrow> string \<Rightarrow> string" where
  \<comment> \<open>\<open>s.replace(old, new)\<close>: every occurrence of \<open>old\<close>, scanning from the left, without
      overlaps; an empty \<open>old\<close> matches before every character and at the end\<close>
  "replace old new [] = (if old = [] then new else [])"
| "replace old new (c # cs) =
     (if old = [] then new @ c # replace old new cs
      else if prefix old (c # cs) then new @ replace old new (drop (length old) (c # cs))
      else c # replace old new cs)"
  by pat_completeness auto
termination
  by (relation "measure (\<lambda>(old, new, s). length s)") auto

fun split :: "char \<Rightarrow> string \<Rightarrow> string list" where
  \<comment> \<open>\<open>s.split(sep)\<close> for a separator of one character\<close>
  "split sep [] = [[]]"
| "split sep (c # cs) =
     (if c = sep then [] # split sep cs
      else (case split sep cs of [] \<Rightarrow> [[c]] | w # ws \<Rightarrow> (c # w) # ws))"

fun show_nat :: "nat \<Rightarrow> string" where
  \<comment> \<open>\<open>str(n)\<close> for a non-negative integer\<close>
  "show_nat n = (if n < 10 then [char_of (48 + n)] else show_nat (n div 10) @ [char_of (48 + n mod 10)])"

definition show_int :: "int \<Rightarrow> string" where
  "show_int i = (if i < 0 then CHR ''-'' # show_nat (nat (- i)) else show_nat (nat i))"

definition getitem_list :: "'a list \<Rightarrow> int \<Rightarrow> exn + 'a" where
  \<comment> \<open>\<open>xs[i]\<close>: an index below zero counts from the end\<close>
  "getitem_list xs i =
     (if 0 \<le> i \<and> i < int (length xs) then Inr (xs ! nat i)
      else if i < 0 \<and> - int (length xs) \<le> i then Inr (xs ! nat (int (length xs) + i))
      else Inl IndexError)"

definition str_opt :: "string option \<Rightarrow> string" where
  \<comment> \<open>\<open>'{}'.format(x)\<close> for a string or \<open>None\<close>\<close>
  "str_opt x = (case x of None \<Rightarrow> ''None'' | Some s \<Rightarrow> s)"


section \<open>The environment of a run\<close>

text \<open>
  The network, the two parsers, the console, \<open>repr\<close> and the two functions of Python that
  read the Unicode character database, \<open>str.casefold\<close> and \<open>int\<close>, are outside the
  program. A run takes them as an environment, and reports the requests it made, the
  lines it printed and the prompt it showed as a list of events, in order. The answer to
  a request depends on its address only.
\<close>

datatype xml = Element (tag: string) (el_text: "string option") (children: "xml list")

text \<open>
  A node of a parsed document has a tag, a text (\<open>None\<close> when it has none) and children. A
  comment or a processing instruction is a node too: a sibling that \<open>getprevious\<close> can
  return, with a tag that is no element name. What \<open>fromstring\<close> returns is the root
  element; the comments and processing instructions in front of it are its previous
  siblings, so a parsed document is the list of these with the root element.
\<close>

type_synonym document = "xml list \<times> xml"

text \<open>
  A decoded JSON value. A dict is the list of its items in their order; the keys of a
  dict that \<open>json.loads\<close> builds are distinct. A float is kept as its literal.
\<close>

datatype json =
    JNull
  | JBool bool
  | JInt int
  | JFloat string
  | JStr string
  | JArr "json list"
  | JObj "(string \<times> json) list"

datatype urlopen_result = Response nat string | Raise net_error

record env =
  urlopen :: "string \<Rightarrow> urlopen_result"
  fromstring :: "string \<Rightarrow> document option"  \<comment> \<open>\<open>lxml.etree.fromstring\<close>; \<open>None\<close> is a syntax error\<close>
  loads :: "string \<Rightarrow> json option"  \<comment> \<open>\<open>json.loads\<close>; \<open>None\<close> is a decoding error\<close>
  input :: "string option"  \<comment> \<open>the line typed at the prompt; \<open>None\<close> is the end of input\<close>
  repr :: "json \<Rightarrow> string"  \<comment> \<open>how \<open>format\<close> shows a float, a list or a dict\<close>
  casefold :: "string \<Rightarrow> string"  \<comment> \<open>\<open>str.casefold\<close>\<close>
  int_py :: "string \<Rightarrow> int option"  \<comment> \<open>\<open>int\<close> of a string; \<open>None\<close> is \<open>ValueError\<close>\<close>

type_synonym 'a run = "event list \<times> (exn + 'a)"

definition str_net_error :: "net_error \<Rightarrow> string" where
  "str_net_error e =
     (case e of
        HTTPError code msg \<Rightarrow> ''HTTP Error '' @ show_nat code @ '': '' @ msg
      | URLError reason \<Rightarrow> ''<urlopen error '' @ reason @ ''>'')"

definition except_net_error :: "'a run \<Rightarrow> 'a run" where
  \<comment> \<open>the two handlers \<open>except HTTPError\<close> and \<open>except URLError\<close>: print the error, exit with it\<close>
  "except_net_error r =
     (case r of
        (tr, Inl (NetError e)) \<Rightarrow> (tr @ [Print (str_net_error e)], Inl (SystemExit (Err e)))
      | _ \<Rightarrow> r)"

section \<open>Input sanitizer\<close>

definition clean :: "env \<Rightarrow> string \<Rightarrow> exn + string" where
  "clean e string =
     (if length string > 0 \<and> \<not> isspace string
      then Inr (quote (casefold e (strip string)))
      else Inl (SystemExit (Msg ''That is an empty string... Try again.'')))"

section \<open>Endpoint prober\<close>

definition prefixes_list :: "string list" where
  "prefixes_list =
     [''https://lookup.dbpedia.org/api/search/PrefixSearch?QueryString='',
      ''http://lookup.dbpedia.org/api/search/PrefixSearch?QueryString='',
      ''https://lookup.dbpedia.org/api/prefix?query='',
      ''http://lookup.dbpedia.org/api/prefix?query='',
      ''http://akswnc7.informatik.uni-leipzig.de/lookup/api/search?query='']"

fun probe :: "env \<Rightarrow> string list \<Rightarrow> string run" where
  \<comment> \<open>the loop of \<open>getAPIprefix\<close> over the prefixes still to try\<close>
  "probe e [] = ([], Inl (SystemExit (Msg ''No functioning DBpedia lookup API found!'')))"
| "probe e (pfx # rest) =
     (case urlopen e (pfx @ ''Antwerp'') of
        Raise err \<Rightarrow> ([Urlopen (pfx @ ''Antwerp'')], Inl (NetError err))
      | Response st b \<Rightarrow>
          if st = 200 then ([Urlopen (pfx @ ''Antwerp'')], Inr pfx)
          else (case probe e rest of (tr, r) \<Rightarrow> (Urlopen (pfx @ ''Antwerp'') # tr, r)))"

definition getAPIprefix :: "env \<Rightarrow> string run" where
  "getAPIprefix e = probe e prefixes_list"

section \<open>Search result filter\<close>

definition BOOK_IDENTIFIER :: string where
  "BOOK_IDENTIFIER = ''http://dbpedia.org/ontology/Book''"

text \<open>
  A node is addressed by the child indices on the way from it up to the top level of the
  document, so that the parent and the previous sibling are read off the address. The last
  index is the position among the top-level nodes, which have no parent.
\<close>

type_synonym node = "nat list"

fun iter_el :: "node \<Rightarrow> xml \<Rightarrow> (node \<times> xml) list"
  and iter_children :: "node \<Rightarrow> nat \<Rightarrow> xml list \<Rightarrow> (node \<times> xml) list" where
  "iter_el p (Element tg tx cs) = (p, Element tg tx cs) # iter_children p 0 cs"
| "iter_children p i [] = []"
| "iter_children p i (c # cs) = iter_el (i # p) c @ iter_children p (Suc i) cs"

definition iter :: "document \<Rightarrow> string \<Rightarrow> (node \<times> xml) list" where
  \<comment> \<open>\<open>tree.iter(tg)\<close>: the root element and its descendants with that tag, in document order\<close>
  "iter tree tg = filter (\<lambda>(p, el). tag el = tg) (iter_el [length (fst tree)] (snd tree))"

fun descend :: "xml \<Rightarrow> nat list \<Rightarrow> xml option" where
  "descend t [] = Some t"
| "descend t (i # is) = (if i < length (children t) then descend (children t ! i) is else None)"

definition node_at :: "document \<Rightarrow> node \<Rightarrow> xml option" where
  "node_at tree p =
     (case rev p of
        [] \<Rightarrow> None
      | i # is \<Rightarrow>
          if i < length (fst tree @ [snd tree]) then descend ((fst tree @ [snd tree]) ! i) is
          else None)"

fun getparent :: "node \<Rightarrow> node option" where
  "getparent [] = None"
| "getparent [i] = None"
| "getparent (i # j # p) = Some (j # p)"

fun getprevious :: "node \<Rightarrow> node option" where
  "getprevious [] = None"
| "getprevious (0 # p) = None"
| "getprevious (Suc i # p) = Some (i # p)"

type_synonym books = "(string option \<times> string option) list"

definition entry_of :: "document \<Rightarrow> node \<Rightarrow> (string option \<times> string option) option" where
  \<comment> \<open>the label and the resource of a hit; \<open>None\<close> when one of the steps meets Python's
      \<open>None\<close>, on which the next call raises \<open>AttributeError\<close>\<close>
  "entry_of tree element =
     do {
       Class \<leftarrow> getparent element;
       Classes \<leftarrow> getparent Class;
       Description \<leftarrow> getprevious Classes;
       URI \<leftarrow> getprevious Description;
       Label \<leftarrow> getprevious URI;
       l \<leftarrow> node_at tree Label;
       u \<leftarrow> node_at tree URI;
       Some (el_text l, el_text u)
     }"

fun scan :: "document \<Rightarrow> (node \<times> xml) list \<Rightarrow> books \<Rightarrow> exn + books" where
  \<comment> \<open>the loop filling \<open>dict_of_books\<close>, a dict in insertion order\<close>
  "scan tree [] dict_of_books = Inr dict_of_books"
| "scan tree ((p, element) # rest) dict_of_books =
     (if el_text element = Some BOOK_IDENTIFIER then
        (case entry_of tree p of
           None \<Rightarrow> Inl AttributeError
         | Some (label, resource) \<Rightarrow> scan tree rest (AList.update label resource dict_of_books))
      else scan tree rest dict_of_books)"

definition URI_json :: "string option \<Rightarrow> exn + string" where
  \<comment> \<open>\<open>resource.replace("resource", "data") + '.json'\<close>; the text of an empty element is
      \<open>None\<close>, which has no \<open>replace\<close>\<close>
  "URI_json resource =
     (case resource of
        None \<Rightarrow> Inl AttributeError
      | Some r \<Rightarrow> Inr (replace ''resource'' ''data'' r @ ''.json''))"

definition results_for :: "string option \<Rightarrow> string" where
  "results_for title = ''Results for '' @ [CHR 0x27] @ str_opt title @ [CHR 0x27] @ '':''"

definition candidate_lines :: "string option list \<Rightarrow> string list" where
  "candidate_lines list_of_books =
     map (\<lambda>(idx, bookname). ''- '' @ show_nat idx @ '' : '' @ str_opt bookname)
       (enumerate 0 list_of_books)"

definition prompt_events :: "string option list \<Rightarrow> event list" where
  "prompt_events list_of_books =
     Print ''There are multiple titles available. Please select 1 by entering their index''
       # map Print (candidate_lines list_of_books) @ [Input ''Which book do you choose? '']"

fun select_book :: "env \<Rightarrow> books \<Rightarrow> string run" where
  \<comment> \<open>the three branches on \<open>len(dict_of_books)\<close>\<close>
  "select_book e [] =
     ([], Inl (SystemExit (Msg ''There are no books found for your search query... Try again.'')))"
| "select_book e [(title, resource)] =
     (case URI_json resource of
        Inl err \<Rightarrow> ([], Inl err)
      | Inr u \<Rightarrow> ([Print (results_for title)], Inr u))"
| "select_book e dict_of_books =
     (let list_of_books = map fst dict_of_books; out = prompt_events list_of_books in
      case input e of
        None \<Rightarrow> (out, Inl EOFError)
      | Some choice \<Rightarrow>
          (case int_py e choice of
             None \<Rightarrow> (out, Inl ValueError)
           | Some k \<Rightarrow>
               (case getitem_list list_of_books k of
                  Inl err \<Rightarrow> (out, Inl err)
                | Inr title \<Rightarrow>
                    (case map_of dict_of_books title of
                       None \<Rightarrow> (out, Inl KeyError)
                     | Some resource \<Rightarrow>
                         (case URI_json resource of
                            Inl err \<Rightarrow> (out, Inl err)
                          | Inr u \<Rightarrow> (out @ [Print (results_for title)], Inr u))))))"

definition extract_books :: "env \<Rightarrow> string \<Rightarrow> string run" where
  "extract_books e query_results =
     (case fromstring e query_results of
        None \<Rightarrow> ([], Inl XMLSyntaxError)
      | Some tree \<Rightarrow>
          (case scan tree (iter tree ''URI'') [] of
             Inl err \<Rightarrow> ([], Inl err)
           | Inr dict_of_books \<Rightarrow> select_book e dict_of_books))"

section \<open>Metadata fetcher\<close>

definition AUTHOR_ID :: string where
  "AUTHOR_ID = ''http://dbpedia.org/ontology/author''"

definition PUBLISHER_ID :: string where
  "PUBLISHER_ID = ''http://dbpedia.org/ontology/publisher''"

definition PUBLICATIONDATE_ID :: string where
  "PUBLICATIONDATE_ID = ''http://dbpedia.org/property/published''"

definition PAGES_ID :: string where
  "PAGES_ID = ''http://dbpedia.org/ontology/numberOfPages''"

definition GENRE_ID :: string where
  "GENRE_ID = ''http://dbpedia.org/property/genre''"

definition ABSTRACT_ID :: string where
  "ABSTRACT_ID = ''http://dbpedia.org/ontology/abstract''"

record answers =
  AUTHOR_ANSWER :: string
  AUTHOR_URI :: string
  PUBLISHER_ANSWER :: string
  PUBLISHER_URI :: string
  PUBLICATIONDATE_ANSWER :: json
  PAGES_ANSWER :: json
  GENRE_ANSWER :: string
  ABSTRACT_ANSWER :: json

definition initial_answers :: answers where
  "initial_answers =
     \<lparr>AUTHOR_ANSWER = ''not found'', AUTHOR_URI = ''not found'',
      PUBLISHER_ANSWER = ''not found'', PUBLISHER_URI = ''not found'',
      PUBLICATIONDATE_ANSWER = JStr ''not found'', PAGES_ANSWER = JStr ''not found'',
      GENRE_ANSWER = ''not found'', ABSTRACT_ANSWER = JStr ''not found''\<rparr>"

subsection \<open>What Python does with a decoded JSON value\<close>

definition items :: "json \<Rightarrow> exn + (string \<times> json) list" where
  \<comment> \<open>\<open>x.items()\<close>: only a dict has it\<close>
  "items x = (case x of JObj kvs \<Rightarrow> Inr kvs | _ \<Rightarrow> Inl AttributeError)"

definition getitem :: "json \<Rightarrow> string \<Rightarrow> exn + json" where
  \<comment> \<open>\<open>x[k]\<close> for a string \<open>k\<close>\<close>
  "getitem x k =
     (case x of
        JObj kvs \<Rightarrow> (case map_of kvs k of None \<Rightarrow> Inl KeyError | Some v \<Rightarrow> Inr v)
      | _ \<Rightarrow> Inl TypeError)"

definition py_iter :: "json \<Rightarrow> exn + json list" where
  \<comment> \<open>\<open>for lst in x\<close>: the elements of a list, the keys of a dict, the characters of a string\<close>
  "py_iter x =
     (case x of
        JArr xs \<Rightarrow> Inr xs
      | JObj kvs \<Rightarrow> Inr (map (\<lambda>(k, v). JStr k) kvs)
      | JStr s \<Rightarrow> Inr (map (\<lambda>c. JStr [c]) s)
      | _ \<Rightarrow> Inl TypeError)"

definition as_str :: "json \<Rightarrow> exn + string" where
  \<comment> \<open>the receiver of \<open>.split\<close>: only a string has it\<close>
  "as_str x = (case x of JStr s \<Rightarrow> Inr s | _ \<Rightarrow> Inl AttributeError)"

definition and_then :: "exn + 'a \<Rightarrow> ('a \<Rightarrow> exn + 'b) \<Rightarrow> exn + 'b" where
  "and_then r f = (case r of Inl err \<Rightarrow> Inl err | Inr x \<Rightarrow> f x)"

fun for_each :: "('a \<Rightarrow> 's \<Rightarrow> exn + 's) \<Rightarrow> 'a list \<Rightarrow> 's \<Rightarrow> exn + 's" where
  \<comment> \<open>a \<open>for\<close> loop over a list, left as soon as its body raises\<close>
  "for_each body [] s = Inr s"
| "for_each body (x # xs) s = and_then (body x s) (for_each body xs)"

definition label_of :: "string \<Rightarrow> string" where
  \<comment> \<open>\<open>uri.split('/')[-1].replace('_', ' ')\<close>\<close>
  "label_of uri = replace ''_'' '' '' (last (split CHR ''/'' uri))"

subsection \<open>The loops of \<open>extract_metadata\<close>\<close>

definition author_body :: "json \<Rightarrow> answers \<Rightarrow> exn + answers" where
  "author_body lst a =
     and_then (getitem lst ''value'') (\<lambda>v. and_then (as_str v) (\<lambda>uri.
       Inr (a\<lparr>AUTHOR_URI := uri, AUTHOR_ANSWER := label_of uri\<rparr>)))"

definition publisher_body :: "json \<Rightarrow> answers \<Rightarrow> exn + answers" where
  "publisher_body lst a =
     and_then (getitem lst ''value'') (\<lambda>v. and_then (as_str v) (\<lambda>uri.
       Inr (a\<lparr>PUBLISHER_URI := uri, PUBLISHER_ANSWER := label_of uri\<rparr>)))"

definition publicationdate_body :: "json \<Rightarrow> answers \<Rightarrow> exn + answers" where
  "publicationdate_body lst a =
     and_then (getitem lst ''value'') (\<lambda>v. Inr (a\<lparr>PUBLICATIONDATE_ANSWER := v\<rparr>))"

definition pages_body :: "json \<Rightarrow> answers \<Rightarrow> exn + answers" where
  "pages_body lst a = and_then (getitem lst ''value'') (\<lambda>v. Inr (a\<lparr>PAGES_ANSWER := v\<rparr>))"

definition genre_body :: "json \<Rightarrow> answers \<Rightarrow> exn + answers" where
  "genre_body lst a =
     and_then (getitem lst ''value'') (\<lambda>v. and_then (as_str v) (\<lambda>uri.
       Inr (a\<lparr>GENRE_ANSWER := label_of uri\<rparr>)))"

definition abstract_field :: "json \<Rightarrow> string \<times> json \<Rightarrow> answers \<Rightarrow> exn + answers" where
  \<comment> \<open>the body of \<open>for k, v in dic.items()\<close>\<close>
  "abstract_field dic kv a =
     and_then (getitem dic (fst kv)) (\<lambda>x.
       if x = JStr ''en'' then and_then (getitem dic ''value'') (\<lambda>v. Inr (a\<lparr>ABSTRACT_ANSWER := v\<rparr>))
       else Inr a)"

definition abstract_body :: "json \<Rightarrow> answers \<Rightarrow> exn + answers" where
  "abstract_body dic a = and_then (items dic) (\<lambda>kvs. for_each (abstract_field dic) kvs a)"

definition loop_over :: "json \<Rightarrow> string \<Rightarrow> (json \<Rightarrow> answers \<Rightarrow> exn + answers) \<Rightarrow> answers \<Rightarrow> exn + answers" where
  \<comment> \<open>\<open>for lst in value[resource]: body\<close>\<close>
  "loop_over val resource body a =
     and_then (getitem val resource) (\<lambda>aspects. and_then (py_iter aspects) (\<lambda>l. for_each body l a))"

definition predicate_step :: "json \<Rightarrow> string \<times> json \<Rightarrow> answers \<Rightarrow> exn + answers" where
  \<comment> \<open>the body of \<open>for resource, aspects in value.items()\<close>\<close>
  "predicate_step val ra a =
     (let resource = fst ra in
      if resource = AUTHOR_ID then loop_over val resource author_body a
      else if resource = PUBLISHER_ID then loop_over val resource publisher_body a
      else if resource = PUBLICATIONDATE_ID then loop_over val resource publicationdate_body a
      else if resource = PAGES_ID then loop_over val resource pages_body a
      else if resource = GENRE_ID then loop_over val resource genre_body a
      else if resource = ABSTRACT_ID then loop_over val resource abstract_body a
      else Inr a)"

definition subject_step :: "string \<times> json \<Rightarrow> answers \<Rightarrow> exn + answers" where
  \<comment> \<open>the body of \<open>for key, value in json_dict.items()\<close>\<close>
  "subject_step kv a = and_then (items (snd kv)) (\<lambda>ras. for_each (predicate_step (snd kv)) ras a)"

definition extract_answers :: "json \<Rightarrow> exn + answers" where
  "extract_answers json_dict =
     and_then (items json_dict) (\<lambda>kvs. for_each subject_step kvs initial_answers)"

definition metadata_dict :: "answers \<Rightarrow> (string \<times> json) list" where
  \<comment> \<open>the returned dict, in the order of its literal\<close>
  "metadata_dict a =
     [(''AUTHOR'', JStr (AUTHOR_ANSWER a)),
      (''AUTHOR_RESOURCE'', JStr (AUTHOR_URI a)),
      (''PUBLISHER'', JStr (PUBLISHER_ANSWER a)),
      (''PUBLISHER_RESOURCE'', JStr (PUBLISHER_URI a)),
      (''PUBLICATION DATE'', PUBLICATIONDATE_ANSWER a),
      (''NUMBER OF PAGES'', PAGES_ANSWER a),
      (''GENRE'', JStr (GENRE_ANSWER a)),
      (''ABSTRACT'', ABSTRACT_ANSWER a)]"

definition extract_metadata :: "env \<Rightarrow> string \<Rightarrow> (string \<times> json) list run" where
  "extract_metadata e URI =
     except_net_error
       (case urlopen e URI of
          Raise err \<Rightarrow> ([Urlopen URI], Inl (NetError err))
        | Response st json_string \<Rightarrow>
            (case loads e json_string of
               None \<Rightarrow> ([Urlopen URI], Inl JSONDecodeError)
             | Some json_dict \<Rightarrow>
                 ([Urlopen URI], and_then (extract_answers json_dict) (\<lambda>a. Inr (metadata_dict a)))))"

section \<open>Formatter\<close>

definition py_str :: "(json \<Rightarrow> string) \<Rightarrow> json \<Rightarrow> string" where
  \<comment> \<open>\<open>'{}'.format(v)\<close>\<close>
  "py_str rp v =
     (case v of
        JStr s \<Rightarrow> s
      | JInt i \<Rightarrow> show_int i
      | JNull \<Rightarrow> ''None''
      | JBool b \<Rightarrow> (if b then ''True'' else ''False'')
      | _ \<Rightarrow> rp v)"

definition display_line :: "(json \<Rightarrow> string) \<Rightarrow> string \<times> json \<Rightarrow> string" where
  "display_line rp kv =
     (case kv of (key, val) \<Rightarrow>
        if suffix ''RESOURCE'' key \<and> val \<noteq> JStr ''not found''
        then ''-> for more info see '' @ py_str rp val
        else if key = ''ABSTRACT'' then ''- '' @ key @ '': '' @ [CHR 0x0A] @ py_str rp val
        else ''- '' @ key @ '': '' @ py_str rp val)"

definition display_results :: "(json \<Rightarrow> string) \<Rightarrow> (string \<times> json) list \<Rightarrow> string list" where
  \<comment> \<open>the printed lines, one for each item of the dict\<close>
  "display_results rp metadata = map (display_line rp) metadata"

section \<open>The whole run\<close>

definition query_DBpedia :: "env \<Rightarrow> string \<Rightarrow> unit run" where
  "query_DBpedia e search =
     (case clean e search of
        Inl err \<Rightarrow> ([], Inl err)
      | Inr bookname \<Rightarrow>
          (case getAPIprefix e of
             (tr1, Inl err) \<Rightarrow> (tr1, Inl err)
           | (tr1, Inr DBPEDIA_PREFIX) \<Rightarrow>
               (let url = DBPEDIA_PREFIX @ bookname in
                except_net_error
                  (case urlopen e url of
                     Raise err \<Rightarrow> (tr1 @ [Urlopen url], Inl (NetError err))
                   | Response st result \<Rightarrow>
                       (case extract_books e result of
                          (tr2, Inl err) \<Rightarrow> (tr1 @ [Urlopen url] @ tr2, Inl err)
                        | (tr2, Inr book_results) \<Rightarrow>
                            (case extract_metadata e book_results of
                               (tr3, Inl err) \<Rightarrow> (tr1 @ [Urlopen url] @ tr2 @ tr3, Inl err)
                             | (tr3, Inr metadata) \<Rightarrow>
                                 (tr1 @ [Urlopen url] @ tr2 @ tr3
                                    @ map Print (display_results (repr e) metadata),
                                  Inr ())))))))"

section \<open>Notions used by the properties\<close>

definition book_hits :: "document \<Rightarrow> (node \<times> xml) list" where
  \<comment> \<open>the type elements that name the Book class, in document order\<close>
  "book_hits tree = filter (\<lambda>(p, el). el_text el = Some BOOK_IDENTIFIER) (iter tree ''URI'')"

definition book_entries :: "document \<Rightarrow> (string option \<times> string option) list" where
  \<comment> \<open>label and resource identifier of the book-typed entities, in document order\<close>
  "book_entries tree = List.map_filter (\<lambda>(p, el). entry_of tree p) (book_hits tree)"

definition objects_under :: "string \<Rightarrow> json \<Rightarrow> string \<times> json \<Rightarrow> json list" where
  \<comment> \<open>the value objects a subject \<open>val\<close> holds under the key of one of its items, when that
      key is the predicate \<open>X\<close>\<close>
  "objects_under X val ra =
     (if fst ra = X then
        (case and_then (getitem val (fst ra)) py_iter of Inl err \<Rightarrow> [] | Inr l \<Rightarrow> l)
      else [])"

definition subject_objects :: "string \<Rightarrow> string \<times> json \<Rightarrow> json list" where
  "subject_objects X kv =
     (case items (snd kv) of Inl err \<Rightarrow> [] | Inr ras \<Rightarrow> concat (map (objects_under X (snd kv)) ras))"

definition value_objects :: "string \<Rightarrow> json \<Rightarrow> json list" where
  \<comment> \<open>the value objects of predicate \<open>X\<close> in a metadata document, in the order of the scan\<close>
  "value_objects X json_dict =
     (case items json_dict of Inl err \<Rightarrow> [] | Inr kvs \<Rightarrow> concat (map (subject_objects X) kvs))"

definition carries :: "string \<Rightarrow> json \<Rightarrow> bool" where
  \<comment> \<open>some subject of the document has the predicate \<open>X\<close> among its keys\<close>
  "carries X json_dict =
     (case items json_dict of
        Inl err \<Rightarrow> False
      | Inr kvs \<Rightarrow>
          list_ex (\<lambda>kv. case items (snd kv) of Inl err \<Rightarrow> False | Inr ras \<Rightarrow> X \<in> set (map fst ras)) kvs)"

definition final_segment :: "string \<Rightarrow> string" where
  \<comment> \<open>what follows the last slash\<close>
  "final_segment uri = rev (takeWhile (\<lambda>c. c \<noteq> CHR ''/'') (rev uri))"

definition spaces_for_underscores :: "string \<Rightarrow> string" where
  "spaces_for_underscores s = map (\<lambda>c. if c = CHR ''_'' then CHR '' '' else c) s"

definition keys_of :: "string \<Rightarrow> string list" where
  \<comment> \<open>the keys of the returned dict that a predicate fills\<close>
  "keys_of X =
     (if X = AUTHOR_ID then [''AUTHOR'', ''AUTHOR_RESOURCE'']
      else if X = PUBLISHER_ID then [''PUBLISHER'', ''PUBLISHER_RESOURCE'']
      else if X = PUBLICATIONDATE_ID then [''PUBLICATION DATE'']
      else if X = PAGES_ID then [''NUMBER OF PAGES'']
      else if X = GENRE_ID then [''GENRE'']
      else if X = ABSTRACT_ID then [''ABSTRACT'']
      else [])"

subsection \<open>Example inputs\<close>

text \<open>
  The example environments hold the two functions below for \<open>str.casefold\<close> and \<open>int\<close>.
  They are Python's on ASCII text, which is all that the examples use; on other text
  Python folds more characters and reads more digits.
\<close>

definition ascii_casefold :: "string \<Rightarrow> string" where
  "ascii_casefold s = map (\<lambda>c. if 65 \<le> ord c \<and> ord c \<le> 90 then char_of (ord c + 32) else c) s"

definition isdigit :: "char \<Rightarrow> bool" where
  "isdigit c = (48 \<le> ord c \<and> ord c \<le> 57)"

definition digit_value :: "char \<Rightarrow> nat" where
  "digit_value c = ord c - 48"

fun parse_digits :: "nat \<Rightarrow> string \<Rightarrow> nat option" where
  \<comment> \<open>the rest of a decimal literal after a digit: digits, each optionally preceded by one
      underscore\<close>
  "parse_digits acc [] = Some acc"
| "parse_digits acc [c] = (if isdigit c then Some (10 * acc + digit_value c) else None)"
| "parse_digits acc (c # d # rest) =
     (if isdigit c then parse_digits (10 * acc + digit_value c) (d # rest)
      else if c = CHR ''_'' \<and> isdigit d then parse_digits (10 * acc + digit_value d) rest
      else None)"

definition parse_nat :: "string \<Rightarrow> nat option" where
  "parse_nat s =
     (case s of [] \<Rightarrow> None
      | c # cs \<Rightarrow> if isdigit c then parse_digits (digit_value c) cs else None)"

definition int_space :: "string list" where
  \<comment> \<open>what \<open>int\<close> skips around an ASCII string: U+0009 to U+000D and U+0020\<close>
  "int_space = [[CHR 0x09], [CHR 0x0A], [CHR 0x0B], [CHR 0x0C], [CHR 0x0D], [CHR 0x20]]"

definition ascii_int :: "string \<Rightarrow> int option" where
  \<comment> \<open>\<open>int(s)\<close> for an ASCII string, in base ten: surrounding whitespace, an optional sign, a
      decimal literal of fewer digits than the interpreter's limit\<close>
  "ascii_int s =
     (case strip_right int_space (strip_left int_space s) of
        [] \<Rightarrow> None
      | c # cs \<Rightarrow>
          if c = CHR ''-'' then map_option (\<lambda>n. - int n) (parse_nat cs)
          else if c = CHR ''+'' then map_option int (parse_nat cs)
          else map_option int (parse_nat (c # cs)))"

definition lookup_result :: "string \<Rightarrow> string \<Rightarrow> string \<Rightarrow> xml" where
  \<comment> \<open>one \<open>Result\<close> element of the lookup service, with a single class\<close>
  "lookup_result l u c =
     Element ''Result'' None
       [Element ''Label'' (Some l) [],
        Element ''URI'' (Some u) [],
        Element ''Description'' None [],
        Element ''Classes'' None
          [Element ''Class'' None [Element ''Label'' None [], Element ''URI'' (Some c) []]]]"

definition one_book :: xml where
  "one_book =
     Element ''ArrayOfResult'' None
       [lookup_result ''Human resource management''
          ''http://dbpedia.org/resource/Human_resource_management'' BOOK_IDENTIFIER]"

definition two_books :: xml where
  "two_books =
     Element ''ArrayOfResult'' None
       [lookup_result ''Dune'' ''http://dbpedia.org/resource/Dune_(novel)'' BOOK_IDENTIFIER,
        lookup_result ''Emma'' ''http://dbpedia.org/resource/Emma_(novel)'' BOOK_IDENTIFIER]"

definition three_hits :: xml where
  "three_hits =
     Element ''ArrayOfResult'' None
       [lookup_result ''Dune'' ''http://dbpedia.org/resource/Dune_(novel)'' BOOK_IDENTIFIER,
        lookup_result ''Emma'' ''http://dbpedia.org/resource/Emma_(novel)'' BOOK_IDENTIFIER,
        lookup_result ''Dune'' ''http://dbpedia.org/resource/Dune_(1984_book)'' BOOK_IDENTIFIER]"

definition no_book :: xml where
  "no_book =
     Element ''ArrayOfResult'' None
       [lookup_result ''Dune'' ''http://dbpedia.org/resource/Dune_(film)''
          ''http://dbpedia.org/ontology/Film'']"

definition value_object :: "string \<Rightarrow> string \<Rightarrow> json" where
  "value_object v l = JObj [(''type'', JStr ''literal''), (''value'', JStr v), (''lang'', JStr l)]"

definition uri_object :: "string \<Rightarrow> json" where
  "uri_object v = JObj [(''type'', JStr ''uri''), (''value'', JStr v)]"

definition dune_document :: json where
  "dune_document =
     JObj [(''http://dbpedia.org/resource/Dune_(novel)'',
       JObj [(AUTHOR_ID,
                JArr [uri_object ''http://dbpedia.org/resource/Brian_Herbert'',
                      uri_object ''http://dbpedia.org/resource/Frank_Herbert'']),
             (PUBLISHER_ID, JArr [uri_object ''http://dbpedia.org/resource/Chilton_Books'']),
             (PUBLICATIONDATE_ID, JArr [value_object ''1964'' ''en'', value_object ''1965'' ''en'']),
             (PAGES_ID, JArr [JObj [(''type'', JStr ''literal''), (''value'', JInt 412)]]),
             (GENRE_ID, JArr [uri_object ''http://dbpedia.org/resource/Science_fiction''])])]"

definition two_abstracts :: json where
  \<comment> \<open>an English abstract and a French one\<close>
  "two_abstracts =
     JObj [(''http://dbpedia.org/resource/Dune_(novel)'',
       JObj [(ABSTRACT_ID,
                JArr [value_object ''Dune is a 1965 novel.'' ''en'',
                      value_object ''Dune est un roman.'' ''fr''])])]"

definition tagged_abstracts :: json where
  \<comment> \<open>an English abstract, and a French one whose text is \<open>en\<close>\<close>
  "tagged_abstracts =
     JObj [(''http://dbpedia.org/resource/Dune_(novel)'',
       JObj [(ABSTRACT_ID,
                JArr [value_object ''Dune is a 1965 novel.'' ''en'', value_object ''en'' ''fr''])])]"

definition french_abstract :: json where
  "french_abstract =
     JObj [(''http://dbpedia.org/resource/Dune_(novel)'',
       JObj [(ABSTRACT_ID, JArr [value_object ''en'' ''fr''])])]"

definition pages_only :: json where
  "pages_only =
     JObj [(''http://dbpedia.org/resource/Dune_(novel)'',
       JObj [(PAGES_ID, JArr [JObj [(''type'', JStr ''literal''), (''value'', JInt 412)]])])]"

definition same_label :: xml where
  \<comment> \<open>two books with one label\<close>
  "same_label =
     Element ''ArrayOfResult'' None
       [lookup_result ''Dune'' ''http://dbpedia.org/resource/Dune_(novel)'' BOOK_IDENTIFIER,
        lookup_result ''Dune'' ''http://dbpedia.org/resource/Dune_(1984_book)'' BOOK_IDENTIFIER]"

definition dune_only :: xml where
  "dune_only =
     Element ''ArrayOfResult'' None
       [lookup_result ''Dune'' ''http://dbpedia.org/resource/Dune_(novel)'' BOOK_IDENTIFIER]"

definition answering :: "xml \<Rightarrow> json \<Rightarrow> string option \<Rightarrow> env" where
  \<comment> \<open>every request is answered with status 200; the search result parses to the given root
      element, with nothing in front of it, and the metadata to the given document\<close>
  "answering root doc inp =
     \<lparr>urlopen = (\<lambda>url. Response 200 []), fromstring = (\<lambda>s. Some ([], root)),
      loads = (\<lambda>s. Some doc), input = inp, repr = (\<lambda>v. []),
      casefold = ascii_casefold, int_py = ascii_int\<rparr>"

definition first_unreachable :: env where
  \<comment> \<open>the first candidate cannot be reached, every other request is answered with status 200\<close>
  "first_unreachable =
     \<lparr>urlopen = (\<lambda>url. if url = hd prefixes_list @ ''Antwerp'' then Raise (URLError ''unreachable'')
                       else Response 200 []),
      fromstring = (\<lambda>s. Some ([], two_books)), loads = (\<lambda>s. Some dune_document), input = None,
      repr = (\<lambda>v. []), casefold = ascii_casefold, int_py = ascii_int\<rparr>"

section \<open>Properties of the sanitizer\<close>







text \<open>
  C8. When the input string is empty or consists of whitespace only, the run ends in the
  sanitizer with its message, and the list of events is empty: no probe, no search and no
  metadata request has been made.
\<close>

theorem blank_input_stops_before_network:
  assumes "search = [] \<or> isspace search"
  shows "query_DBpedia e search = ([], Inl (SystemExit (Msg ''That is an empty string... Try again.'')))"
  using assms by (auto simp: query_DBpedia_def clean_def)

theorem blank_input_stops_before_network_witness:
  "isspace [CHR 0x20, CHR 0x09, CHR 0xC2, CHR 0xA0, CHR 0xE3, CHR 0x80, CHR 0x80]
   \<and> query_DBpedia (answering two_books dune_document None)
         [CHR 0x20, CHR 0x09, CHR 0xC2, CHR 0xA0, CHR 0xE3, CHR 0x80, CHR 0x80]
       = ([], Inl (SystemExit (Msg ''That is an empty string... Try again.'')))"
proof -
  have h: "isspace [CHR 0x20, CHR 0x09, CHR 0xC2, CHR 0xA0, CHR 0xE3, CHR 0x80, CHR 0x80]"
    by code_simp
  then have "[CHR 0x20, CHR 0x09, CHR 0xC2, CHR 0xA0, CHR 0xE3, CHR 0x80, CHR 0x80] = []
      \<or> isspace [CHR 0x20, CHR 0x09, CHR 0xC2, CHR 0xA0, CHR 0xE3, CHR 0x80, CHR 0x80]"
    by (rule disjI2)
  from blank_input_stops_before_network [OF this] h show ?thesis
    by (rule_tac conjI)
qed













section \<open>Properties of the address of the metadata document\<close>

text \<open>
  For an entity whose name does not contain \<open>resource\<close>, only the path segment is
  replaced.
\<close>

lemma replace_without_occurrence:
  assumes "old \<noteq> []" and "\<not> sublist old s"
  shows "replace old new s = s"
  using assms(2)
proof (induction s)
  case Nil
  with assms(1) show ?case by simp
next
  case (Cons c cs)
  from Cons.prems have p: "\<not> prefix old (c # cs)"
    by (meson prefix_imp_sublist)
  from Cons.prems have "\<not> sublist old cs"
    by (meson sublist_Cons_right)
  with Cons.IH p assms(1) show ?case by simp
qed

lemma address_of_plain_name:
  assumes "\<not> sublist ''resource'' name"
  shows "URI_json (Some (''http://dbpedia.org/resource/'' @ name))
    = Inr (''http://dbpedia.org/data/'' @ name @ ''.json'')"
proof -
  have "replace ''resource'' ''data'' (CHR ''/'' # name) = CHR ''/'' # name"
    using replace_without_occurrence [OF _ assms, of "''data''"] by simp
  then show ?thesis by (simp add: URI_json_def)
qed

text \<open>
  C1. The address of the metadata document is the resource identifier with every
  occurrence of \<open>resource\<close> replaced by \<open>data\<close>, followed by \<open>.json\<close>. An identifier
  ending in \<open>/resource/Dune_(novel)\<close> becomes \<open>/data/Dune_(novel).json\<close>. The name of
  the entity is not left alone: for the single book \<open>Human_resource_management\<close> the
  run requests \<open>/data/Human_data_management.json\<close>.
\<close>

theorem address_rewrites_entity_name:
  "URI_json (Some ''http://dbpedia.org/resource/Dune_(novel)'')
     = Inr ''http://dbpedia.org/data/Dune_(novel).json''
   \<and> URI_json (Some ''http://dbpedia.org/resource/Human_resource_management'')
     = Inr ''http://dbpedia.org/data/Human_data_management.json''
   \<and> extract_books (answering one_book dune_document None) []
     = ([Print (results_for (Some ''Human resource management''))],
        Inr ''http://dbpedia.org/data/Human_data_management.json'')
   \<and> Urlopen ''http://dbpedia.org/data/Human_data_management.json''
     \<in> set (fst (query_DBpedia (answering one_book dune_document None) ''Human resource''))"
  by code_simp

section \<open>Properties of the endpoint prober\<close>

text \<open>
  As long as every candidate answers, the prober returns the first, in the order of the
  list, that answers with status 200, and exits with its message when none does.
\<close>

lemma probe_all_answer:
  assumes "list_all (\<lambda>p. \<exists>st b. urlopen e (p @ ''Antwerp'') = Response st b) ps"
  shows "snd (probe e ps) =
     (case List.find (\<lambda>p. \<exists>b. urlopen e (p @ ''Antwerp'') = Response 200 b) ps of
        None \<Rightarrow> Inl (SystemExit (Msg ''No functioning DBpedia lookup API found!''))
      | Some p \<Rightarrow> Inr p)"
  using assms by (induction ps) (auto split: prod.splits)

text \<open>
  C2. A candidate whose request fails at the transport level ends the loop: the error
  that \<open>urlopen\<close> raises is not caught. With the first candidate unreachable and the
  second one answering with status 200, the prober raises the transport error after one
  request; the second candidate is never asked, and the run ends with that uncaught
  error, not with the exit message.
\<close>

theorem prober_stops_at_transport_error:
  "urlopen first_unreachable (prefixes_list ! 0 @ ''Antwerp'') = Raise (URLError ''unreachable'')
   \<and> urlopen first_unreachable (prefixes_list ! 1 @ ''Antwerp'') = Response 200 []
   \<and> getAPIprefix first_unreachable
     = ([Urlopen (prefixes_list ! 0 @ ''Antwerp'')], Inl (NetError (URLError ''unreachable'')))
   \<and> query_DBpedia first_unreachable ''Dune''
     = ([Urlopen (prefixes_list ! 0 @ ''Antwerp'')], Inl (NetError (URLError ''unreachable'')))"
  by code_simp

section \<open>Properties of the search result filter\<close>

lemma scan_filter: "scan tree hits d = scan tree (filter (\<lambda>(p, el). el_text el = Some BOOK_IDENTIFIER) hits) d"
  by (induction hits arbitrary: d) (auto split: option.splits)

lemma scan_no_hits: "book_hits tree = [] \<Longrightarrow> scan tree (iter tree ''URI'') [] = Inr []"
  using scan_filter [of tree "iter tree ''URI''" "[]"] by (simp add: book_hits_def)

lemma probe_events:
  "set (fst (probe e ps)) \<subseteq> (\<lambda>p. Urlopen (p @ ''Antwerp'')) ` set ps"
  by (induction ps) (auto split: urlopen_result.splits prod.splits)

text \<open>
  C7. When the search response holds no type element that names the Book class, whatever
  other types it holds, the run ends with the exit message that no books were found. Its
  events are the probes and the search request only: no metadata document is requested.
\<close>

theorem no_book_no_fetch:
  assumes "clean e search = Inr bookname"
    and "getAPIprefix e = (tr, Inr pfx)"
    and "urlopen e (pfx @ bookname) = Response st result"
    and "fromstring e result = Some tree"
    and "book_hits tree = []"
  shows "query_DBpedia e search =
      (tr @ [Urlopen (pfx @ bookname)],
       Inl (SystemExit (Msg ''There are no books found for your search query... Try again.'')))
    \<and> set (fst (query_DBpedia e search))
      \<subseteq> insert (Urlopen (pfx @ bookname)) ((\<lambda>p. Urlopen (p @ ''Antwerp'')) ` set prefixes_list)"
proof -
  have q: "query_DBpedia e search =
      (tr @ [Urlopen (pfx @ bookname)],
       Inl (SystemExit (Msg ''There are no books found for your search query... Try again.'')))"
    using assms
    by (simp add: query_DBpedia_def extract_books_def scan_no_hits except_net_error_def)
  have "set tr \<subseteq> (\<lambda>p. Urlopen (p @ ''Antwerp'')) ` set prefixes_list"
    using probe_events [of e prefixes_list] assms(2) by (simp add: getAPIprefix_def)
  with q show ?thesis by auto
qed

theorem no_book_no_fetch_witness:
  "clean (answering no_book dune_document None) ''Dune'' = Inr ''dune''
   \<and> book_hits ([], no_book) = []
   \<and> query_DBpedia (answering no_book dune_document None) ''Dune''
       = ([Urlopen (prefixes_list ! 0 @ ''Antwerp''), Urlopen (prefixes_list ! 0 @ ''dune'')],
          Inl (SystemExit (Msg ''There are no books found for your search query... Try again.'')))"
proof -
  have c: "clean (answering no_book dune_document None) ''Dune'' = Inr ''dune''" by code_simp
  have g: "getAPIprefix (answering no_book dune_document None)
      = ([Urlopen (prefixes_list ! 0 @ ''Antwerp'')], Inr (prefixes_list ! 0))"
    by code_simp
  have u: "urlopen (answering no_book dune_document None) (prefixes_list ! 0 @ ''dune'') = Response 200 []"
    by (simp add: answering_def)
  have f: "fromstring (answering no_book dune_document None) [] = Some ([], no_book)"
    by (simp add: answering_def)
  have b: "book_hits ([], no_book) = []" by code_simp
  from no_book_no_fetch [OF c g u f b] c b show ?thesis by simp
qed

lemma fold_entries:
  "scan tree hits d0 = Inr d \<Longrightarrow>
   d = fold (\<lambda>(l, u). AList.update l u) (List.map_filter (\<lambda>(p, el). entry_of tree p) (filter (\<lambda>(p, el). el_text el = Some BOOK_IDENTIFIER) hits)) d0
   \<and> length (List.map_filter (\<lambda>(p, el). entry_of tree p) (filter (\<lambda>(p, el). el_text el = Some BOOK_IDENTIFIER) hits)) = length (filter (\<lambda>(p, el). el_text el = Some BOOK_IDENTIFIER) hits)"
  by (induction hits arbitrary: d0) (auto simp: List.map_filter_simps split: option.splits if_splits)

lemma fold_update_keys:
  "distinct (map fst d0) \<Longrightarrow> distinct (map fst (fold (\<lambda>(l, u). AList.update l u) es d0))"
  by (induction es arbitrary: d0) (auto simp: distinct_update)

lemma fold_update_dom:
  "fst ` set (fold (\<lambda>(l, u). AList.update l u) es d0) = fst ` set es \<union> fst ` set d0"
proof (induction es arbitrary: d0)
  case Nil
  show ?case by simp
next
  case (Cons x es)
  obtain l u where x: "x = (l, u)" by (cases x)
  have "fst ` set (fold (\<lambda>(l, u). AList.update l u) (x # es) d0)
      = fst ` set es \<union> fst ` set (AList.update l u d0)"
    using Cons.IH [of "AList.update l u d0"] by (simp add: x)
  also have "\<dots> = fst ` set (x # es) \<union> fst ` set d0"
    by (simp add: dom_update x)
  finally show ?case .
qed

lemma fold_update_map_of:
  "map_of (fold (\<lambda>(l, u). AList.update l u) es d0) = map_of d0 ++ map_of (rev es)"
  by (induction es arbitrary: d0) (auto simp: update_conv' map_add_def fun_eq_iff split: option.splits)

lemma scan_entries:
  assumes "scan tree (iter tree ''URI'') [] = Inr d"
  shows "d = fold (\<lambda>(l, u). AList.update l u) (book_entries tree) []"
    and "length (book_entries tree) = length (book_hits tree)"
  using fold_entries [OF assms] by (simp_all add: book_entries_def book_hits_def)

lemma scan_distinct:
  assumes "scan tree (iter tree ''URI'') [] = Inr d"
  shows "distinct (map fst d)"
  using fold_update_keys [of "[]" "book_entries tree"] scan_entries(1) [OF assms] by simp

lemma scan_keys:
  assumes "scan tree (iter tree ''URI'') [] = Inr d"
  shows "set (map fst d) = set (map fst (book_entries tree))"
  using fold_update_dom [of "book_entries tree" "[]"] scan_entries(1) [OF assms] by simp

lemma scan_length:
  assumes "scan tree (iter tree ''URI'') [] = Inr d"
  shows "length d = card (set (map fst (book_entries tree)))"
proof -
  have "length d = length (map fst d)" by simp
  also have "\<dots> = card (set (map fst d))"
    using scan_distinct [OF assms] by (simp only: distinct_card)
  finally show ?thesis by (simp only: scan_keys [OF assms])
qed

lemma candidate_lines_nth:
  "candidate_lines xs = map (\<lambda>i. ''- '' @ show_nat i @ '' : '' @ str_opt (xs ! i)) [0..<length xs]"
  by (rule nth_equalityI) (simp_all add: candidate_lines_def nth_enumerate_eq)

lemma select_book_many:
  assumes "2 \<le> length d"
  shows "\<exists>rest. fst (select_book e d) = prompt_events (map fst d) @ rest
    \<and> (rest = [] \<or> (\<exists>t. rest = [Print t]))"
proof -
  from assms obtain x y zs where d: "d = x # y # zs"
    by (cases d; cases "tl d") auto
  show ?thesis
    unfolding d by (cases x) (auto simp: Let_def split: option.splits sum.splits)
qed

lemma select_book_one:
  assumes "length d = 1"
  shows "select_book e d =
     (case URI_json (snd (d ! 0)) of
        Inl err \<Rightarrow> ([], Inl err)
      | Inr u \<Rightarrow> ([Print (results_for (fst (d ! 0)))], Inr u))"
proof -
  from assms obtain x where d: "d = [x]"
    by (cases d) auto
  show ?thesis unfolding d by (cases x) (simp split: sum.splits)
qed

text \<open>
  C10, as the code has it. The candidates are kept in a dict keyed by label. After the
  scan its keys are distinct and are the labels of the book-typed entities; each label
  maps to the resource identifier of the last entity scanned with that label; so the
  number of candidates kept is the number of distinct labels, at most the number of
  book-typed entities. With two or more candidates kept, the run lists one line for each,
  in the order of the dict, between the heading and the prompt. With one candidate kept,
  however many book-typed entities bore its label, nothing is listed and nothing is asked:
  the run prints the result line for that label and returns its address.
\<close>

theorem one_candidate_per_label:
  assumes "fromstring e query_results = Some tree"
    and "scan tree (iter tree ''URI'') [] = Inr d"
  shows "distinct (map fst d)
    \<and> set (map fst d) = set (map fst (book_entries tree))
    \<and> map_of d = map_of (rev (book_entries tree))
    \<and> length (book_entries tree) = length (book_hits tree)
    \<and> length d = card (set (map fst (book_entries tree)))
    \<and> length d \<le> length (book_hits tree)
    \<and> (2 \<le> length d \<longrightarrow>
         (\<exists>rest. fst (extract_books e query_results) =
             Print ''There are multiple titles available. Please select 1 by entering their index''
               # map (\<lambda>i. Print (''- '' @ show_nat i @ '' : '' @ str_opt (fst (d ! i)))) [0..<length d]
               @ Input ''Which book do you choose? '' # rest
           \<and> (rest = [] \<or> (\<exists>t. rest = [Print t]))))
    \<and> (length d = 1 \<longrightarrow>
         extract_books e query_results =
           (case URI_json (snd (d ! 0)) of
              Inl err \<Rightarrow> ([], Inl err)
            | Inr u \<Rightarrow>
                ([Print (''Results for '' @ [CHR 0x27] @ str_opt (fst (d ! 0)) @ [CHR 0x27] @ '':'')],
                 Inr u)))"
proof -
  note s = assms(2)
  have m: "map_of d = map_of (rev (book_entries tree))"
    using fold_update_map_of [of "book_entries tree" "[]"] scan_entries(1) [OF s] by simp
  have le: "length d \<le> length (book_hits tree)"
  proof -
    have "card (set (map fst (book_entries tree))) \<le> length (map fst (book_entries tree))"
      by (rule card_length)
    then show ?thesis
      by (simp add: scan_length [OF s] scan_entries(2) [OF s])
  qed
  have x: "extract_books e query_results = select_book e d"
    by (simp add: extract_books_def assms)
  have p: "\<exists>rest. fst (extract_books e query_results) =
             Print ''There are multiple titles available. Please select 1 by entering their index''
               # map (\<lambda>i. Print (''- '' @ show_nat i @ '' : '' @ str_opt (fst (d ! i)))) [0..<length d]
               @ Input ''Which book do you choose? '' # rest
           \<and> (rest = [] \<or> (\<exists>t. rest = [Print t]))"
    if "2 \<le> length d"
  proof -
    from select_book_many [OF that, of e] obtain rest
      where r: "fst (select_book e d) = prompt_events (map fst d) @ rest"
        and t: "rest = [] \<or> (\<exists>t. rest = [Print t])"
      by blast
    have "map Print (candidate_lines (map fst d))
        = map (\<lambda>i. Print (''- '' @ show_nat i @ '' : '' @ str_opt (fst (d ! i)))) [0..<length d]"
      by (simp add: candidate_lines_nth)
    with r have "fst (extract_books e query_results) =
             Print ''There are multiple titles available. Please select 1 by entering their index''
               # map (\<lambda>i. Print (''- '' @ show_nat i @ '' : '' @ str_opt (fst (d ! i)))) [0..<length d]
               @ Input ''Which book do you choose? '' # rest"
      by (simp add: x prompt_events_def)
    with t show ?thesis by blast
  qed
  have o: "extract_books e query_results =
           (case URI_json (snd (d ! 0)) of
              Inl err \<Rightarrow> ([], Inl err)
            | Inr u \<Rightarrow>
                ([Print (''Results for '' @ [CHR 0x27] @ str_opt (fst (d ! 0)) @ [CHR 0x27] @ '':'')],
                 Inr u))"
    if "length d = 1"
    using select_book_one [OF that, of e] by (simp add: x results_for_def split: sum.splits)
  show ?thesis
    using scan_distinct [OF s] scan_keys [OF s] m scan_entries(2) [OF s]
      scan_length [OF s] le p o by blast
qed

theorem one_candidate_per_label_witness:
  "scan ([], three_hits) (iter ([], three_hits) ''URI'') []
     = Inr [(Some ''Dune'', Some ''http://dbpedia.org/resource/Dune_(1984_book)''),
            (Some ''Emma'', Some ''http://dbpedia.org/resource/Emma_(novel)'')]
   \<and> length (book_hits ([], three_hits)) = 3
   \<and> card (set (map fst (book_entries ([], three_hits)))) = 2
   \<and> fst (extract_books (answering three_hits dune_document None) [])
       = [Print ''There are multiple titles available. Please select 1 by entering their index'',
          Print ''- 0 : Dune'', Print ''- 1 : Emma'', Input ''Which book do you choose? '']"
proof -
  let ?d = "[(Some ''Dune'', Some ''http://dbpedia.org/resource/Dune_(1984_book)''),
             (Some ''Emma'', Some ''http://dbpedia.org/resource/Emma_(novel)'')]"
  have f: "fromstring (answering three_hits dune_document None) [] = Some ([], three_hits)"
    by (simp add: answering_def)
  have s: "scan ([], three_hits) (iter ([], three_hits) ''URI'') [] = Inr ?d"
    by code_simp
  have h: "length (book_hits ([], three_hits)) = 3"
    by code_simp
  have x: "fst (extract_books (answering three_hits dune_document None) [])
       = [Print ''There are multiple titles available. Please select 1 by entering their index'',
          Print ''- 0 : Dune'', Print ''- 1 : Emma'', Input ''Which book do you choose? '']"
    by code_simp
  from one_candidate_per_label [OF f s]
  have "length ?d = card (set (map fst (book_entries ([], three_hits))))"
    by blast
  with s h x show ?thesis by simp
qed

text \<open>
  Two book-typed entities with one label: one candidate is kept, and no candidate is
  listed.
\<close>

theorem shared_label_lists_nothing_counterexample:
  "length (book_hits ([], same_label)) = 2
   \<and> card (set (map fst (book_entries ([], same_label)))) = 1
   \<and> extract_books (answering same_label dune_document None) []
       = ([Print (''Results for '' @ [CHR 0x27] @ ''Dune'' @ [CHR 0x27] @ '':'')],
          Inr ''http://dbpedia.org/data/Dune_(1984_book).json'')"
  by code_simp

lemma map_of_nth:
  assumes "distinct (map fst d)" and "i < length d"
  shows "map_of d (fst (d ! i)) = Some (snd (d ! i))"
  using assms by (simp add: map_of_eq_Some_iff)

lemma select_book_choice:
  assumes "distinct (map fst d)" and "2 \<le> length d"
    and "input e = Some choice"
  shows "snd (select_book e d) =
     (case int_py e choice of
        None \<Rightarrow> Inl ValueError
      | Some k \<Rightarrow>
          if - int (length d) \<le> k \<and> k < int (length d)
          then URI_json (snd (d ! nat (k mod int (length d))))
          else Inl IndexError)"
proof (cases "int_py e choice")
  case None
  from assms obtain x y zs where d: "d = x # y # zs"
    by (cases d; cases "tl d") auto
  show ?thesis unfolding d using None assms(3) by (cases x) (simp add: Let_def)
next
  case (Some k)
  from assms obtain x y zs where d: "d = x # y # zs"
    by (cases d; cases "tl d") auto
  obtain t r where x: "x = (t, r)" by (cases x)
  let ?n = "int (length d)"
  have sel: "select_book e d =
     (case getitem_list (map fst d) k of
        Inl err \<Rightarrow> (prompt_events (map fst d), Inl err)
      | Inr title \<Rightarrow>
          (case map_of d title of
             None \<Rightarrow> (prompt_events (map fst d), Inl KeyError)
           | Some resource \<Rightarrow>
               (case URI_json resource of
                  Inl err \<Rightarrow> (prompt_events (map fst d), Inl err)
                | Inr u \<Rightarrow> (prompt_events (map fst d) @ [Print (results_for title)], Inr u))))"
    unfolding d x using Some assms(3) by (simp add: Let_def split: sum.splits option.splits)
  show ?thesis
  proof (cases "- ?n \<le> k \<and> k < ?n")
    case False
    then have "getitem_list (map fst d) k = Inl IndexError"
      by (auto simp: getitem_list_def)
    with False Some show ?thesis by (auto simp: sel)
  next
    case True
    define i where "i = nat (k mod ?n)"
    have n: "0 < ?n" using assms(2) by linarith
    have "0 \<le> k mod ?n" and "k mod ?n < ?n"
      using n by simp_all
    then have i: "i < length d" unfolding i_def by linarith
    have "getitem_list (map fst d) k = Inr (fst (d ! i))"
    proof (cases "0 \<le> k")
      case True
      with \<open>- ?n \<le> k \<and> k < ?n\<close> show ?thesis by (simp add: getitem_list_def i_def)
    next
      case False
      have "k mod ?n = (?n + k) mod ?n" by simp
      also have "\<dots> = ?n + k"
        using False \<open>- ?n \<le> k \<and> k < ?n\<close> by (intro mod_pos_pos_trivial) linarith+
      finally have "k mod ?n = ?n + k" .
      with False \<open>- ?n \<le> k \<and> k < ?n\<close> i show ?thesis
        by (simp add: getitem_list_def i_def)
    qed
    then have "snd (select_book e d) = URI_json (snd (d ! i))"
      by (simp add: sel map_of_nth [OF assms(1) i] split: sum.splits)
    with True Some show ?thesis by (simp add: i_def)
  qed
qed

text \<open>
  An error raised in the filter, other than a network error, is caught nowhere: the run
  ends with it.
\<close>

lemma filter_error_ends_run:
  assumes "clean e search = Inr bookname"
    and "getAPIprefix e = (tr1, Inr pfx)"
    and "urlopen e (pfx @ bookname) = Response st result"
    and "extract_books e result = (tr2, Inl err)"
    and "\<forall>ne. err \<noteq> NetError ne"
  shows "query_DBpedia e search = (tr1 @ [Urlopen (pfx @ bookname)] @ tr2, Inl err)"
  using assms by (cases err) (simp_all add: query_DBpedia_def except_net_error_def)

text \<open>
  C3, as the code has it. With \<open>N \<ge> 2\<close> listed titles, a choice that \<open>int\<close> rejects ends
  the run with \<open>ValueError\<close>, and a choice denoting \<open>k\<close> with \<open>k \<ge> N\<close> or \<open>k < -N\<close> ends
  it with \<open>IndexError\<close>. A choice with \<open>-N \<le> k < N\<close> selects the title at position
  \<open>k mod N\<close> of the list: a negative index counts from the end.
\<close>

theorem choice_outside_range_is_fatal:
  assumes "fromstring e query_results = Some tree"
    and "scan tree (iter tree ''URI'') [] = Inr d"
    and "2 \<le> length d"
    and "input e = Some choice"
  shows "snd (extract_books e query_results) =
     (case int_py e choice of
        None \<Rightarrow> Inl ValueError
      | Some k \<Rightarrow>
          if - int (length d) \<le> k \<and> k < int (length d)
          then URI_json (snd (d ! nat (k mod int (length d))))
          else Inl IndexError)"
  using select_book_choice [OF scan_distinct [OF assms(2)] assms(3) assms(4)]
  by (simp add: extract_books_def assms(1,2))

theorem choice_outside_range_is_fatal_witness:
  "scan ([], two_books) (iter ([], two_books) ''URI'') []
     = Inr [(Some ''Dune'', Some ''http://dbpedia.org/resource/Dune_(novel)''),
            (Some ''Emma'', Some ''http://dbpedia.org/resource/Emma_(novel)'')]
   \<and> snd (extract_books (answering two_books dune_document (Some ''2'')) []) = Inl IndexError
   \<and> snd (extract_books (answering two_books dune_document (Some ''-3'')) []) = Inl IndexError
   \<and> snd (extract_books (answering two_books dune_document (Some ''two'')) []) = Inl ValueError
   \<and> snd (extract_books (answering two_books dune_document (Some ''-2'')) [])
       = Inr ''http://dbpedia.org/data/Dune_(novel).json''"
proof -
  let ?d = "[(Some ''Dune'', Some ''http://dbpedia.org/resource/Dune_(novel)''),
             (Some ''Emma'', Some ''http://dbpedia.org/resource/Emma_(novel)'')]"
  have s: "scan ([], two_books) (iter ([], two_books) ''URI'') [] = Inr ?d"
    by code_simp
  have l: "2 \<le> length ?d" by simp
  have f: "fromstring (answering two_books dune_document inp) [] = Some ([], two_books)" for inp
    by (simp add: answering_def)
  have i: "input (answering two_books dune_document inp) = inp" for inp
    by (simp add: answering_def)
  have p: "int_py (answering two_books dune_document inp) = ascii_int" for inp
    by (simp add: answering_def)
  have a: "ascii_int ''2'' = Some 2" "ascii_int ''-3'' = Some (- 3)" "ascii_int ''two'' = None"
    "ascii_int ''-2'' = Some (- 2)"
    by code_simp+
  have u: "URI_json (Some ''http://dbpedia.org/resource/Dune_(novel)'')
      = Inr ''http://dbpedia.org/data/Dune_(novel).json''"
    by code_simp
  show ?thesis
    using choice_outside_range_is_fatal [OF f [of "Some ''2''"] s l i [of "Some ''2''"]]
      choice_outside_range_is_fatal [OF f [of "Some ''-3''"] s l i [of "Some ''-3''"]]
      choice_outside_range_is_fatal [OF f [of "Some ''two''"] s l i [of "Some ''two''"]]
      choice_outside_range_is_fatal [OF f [of "Some ''-2''"] s l i [of "Some ''-2''"]]
    by (simp add: s p a u)
qed

text \<open>With two titles listed, the choice \<open>-1\<close> selects the second.\<close>

theorem negative_choice_selects_counterexample:
  "int_py (answering two_books dune_document (Some ''-1'')) ''-1'' = Some (- 1)
   \<and> extract_books (answering two_books dune_document (Some ''-1'')) []
       = ([Print ''There are multiple titles available. Please select 1 by entering their index'',
           Print ''- 0 : Dune'', Print ''- 1 : Emma'', Input ''Which book do you choose? '',
           Print (''Results for '' @ [CHR 0x27] @ ''Emma'' @ [CHR 0x27] @ '':'')],
          Inr ''http://dbpedia.org/data/Emma_(novel).json'')"
  by code_simp

section \<open>Properties of the metadata fetcher and the formatter\<close>

lemma and_then_Inr: "and_then r f = Inr y \<longleftrightarrow> (\<exists>x. r = Inr x \<and> f x = Inr y)"
  by (cases r) (simp_all add: and_then_def)

lemma for_each_preserves:
  assumes "\<And>x s s'. body x s = Inr s' \<Longrightarrow> f s' = f s"
  shows "for_each body xs s = Inr s' \<Longrightarrow> f s' = f s"
proof (induction xs arbitrary: s)
  case Nil
  then show ?case by simp
next
  case (Cons x xs)
  then obtain s1 where b: "body x s = Inr s1" and r: "for_each body xs s1 = Inr s'"
    by (auto simp: and_then_Inr)
  from Cons.IH [OF r] assms [OF b] show ?case by simp
qed

lemma for_each_last:
  assumes "\<And>x s s'. body x s = Inr s' \<Longrightarrow>
      (if objs x = [] then f s' = f s else Q (last (objs x)) (f s'))"
  shows "for_each body xs s = Inr s' \<Longrightarrow>
      (if concat (map objs xs) = [] then f s' = f s else Q (last (concat (map objs xs))) (f s'))"
proof (induction xs arbitrary: s)
  case Nil
  then show ?case by simp
next
  case (Cons x xs)
  then obtain s1 where b: "body x s = Inr s1" and r: "for_each body xs s1 = Inr s'"
    by (auto simp: and_then_Inr)
  show ?case
  proof (cases "concat (map objs xs) = []")
    case True
    with Cons.IH [OF r] have e: "f s' = f s1" by (simp only: if_True)
    have c: "concat (map objs (x # xs)) = objs x" using True by simp
    from assms [OF b] show ?thesis by (simp only: c e)
  next
    case False
    with Cons.IH [OF r] have q: "Q (last (concat (map objs xs))) (f s')" by (simp only: if_False)
    have "concat (map objs (x # xs)) \<noteq> []"
      and "last (concat (map objs (x # xs))) = last (concat (map objs xs))"
      using False by simp_all
    with q show ?thesis by (simp only: if_False)
  qed
qed

lemma loop_over_preserves:
  assumes "\<And>x s s'. body x s = Inr s' \<Longrightarrow> f s' = f s"
    and "loop_over v r body a = Inr a'"
  shows "f a' = f a"
  using assms(2) for_each_preserves [of body f, OF assms(1)]
  by (auto simp: loop_over_def and_then_Inr)

lemma loop_over_last:
  assumes "\<And>x s s'. body x s = Inr s' \<Longrightarrow> Q x (f s')"
    and "loop_over v r body a = Inr a'"
  shows "if objects_under r v (r, asp) = [] then f a' = f a
         else Q (last (objects_under r v (r, asp))) (f a')"
proof -
  from assms(2) obtain aspects l where g: "getitem v r = Inr aspects" and i: "py_iter aspects = Inr l"
    and fe: "for_each body l a = Inr a'"
    by (auto simp: loop_over_def and_then_Inr)
  have o: "objects_under r v (r, asp) = l"
    by (simp add: objects_under_def and_then_def g i)
  have c: "concat (map (\<lambda>x. [x]) l) = l" by (induction l) simp_all
  have "if concat (map (\<lambda>x. [x]) l) = [] then f a' = f a
        else Q (last (concat (map (\<lambda>x. [x]) l))) (f a')"
    by (rule for_each_last [OF _ fe]) (simp add: assms(1))
  then show ?thesis by (simp only: c o)
qed

lemma ids_distinct:
  "distinct [AUTHOR_ID, PUBLISHER_ID, PUBLICATIONDATE_ID, PAGES_ID, GENRE_ID, ABSTRACT_ID]"
  by (simp add: AUTHOR_ID_def PUBLISHER_ID_def PUBLICATIONDATE_ID_def PAGES_ID_def GENRE_ID_def
      ABSTRACT_ID_def)

text \<open>What each loop body leaves alone.\<close>

lemma author_body_others:
  "author_body x s = Inr s' \<Longrightarrow>
   (PUBLISHER_ANSWER s', PUBLISHER_URI s', PUBLICATIONDATE_ANSWER s', PAGES_ANSWER s', GENRE_ANSWER s', ABSTRACT_ANSWER s')
   = (PUBLISHER_ANSWER s, PUBLISHER_URI s, PUBLICATIONDATE_ANSWER s, PAGES_ANSWER s, GENRE_ANSWER s, ABSTRACT_ANSWER s)"
  by (auto simp: author_body_def and_then_Inr)

lemma publisher_body_others:
  "publisher_body x s = Inr s' \<Longrightarrow>
   (AUTHOR_ANSWER s', AUTHOR_URI s', PUBLICATIONDATE_ANSWER s', PAGES_ANSWER s', GENRE_ANSWER s', ABSTRACT_ANSWER s')
   = (AUTHOR_ANSWER s, AUTHOR_URI s, PUBLICATIONDATE_ANSWER s, PAGES_ANSWER s, GENRE_ANSWER s, ABSTRACT_ANSWER s)"
  by (auto simp: publisher_body_def and_then_Inr)

lemma publicationdate_body_others:
  "publicationdate_body x s = Inr s' \<Longrightarrow>
   (AUTHOR_ANSWER s', AUTHOR_URI s', PUBLISHER_ANSWER s', PUBLISHER_URI s', PAGES_ANSWER s', GENRE_ANSWER s', ABSTRACT_ANSWER s')
   = (AUTHOR_ANSWER s, AUTHOR_URI s, PUBLISHER_ANSWER s, PUBLISHER_URI s, PAGES_ANSWER s, GENRE_ANSWER s, ABSTRACT_ANSWER s)"
  by (auto simp: publicationdate_body_def and_then_Inr)

lemma pages_body_others:
  "pages_body x s = Inr s' \<Longrightarrow>
   (AUTHOR_ANSWER s', AUTHOR_URI s', PUBLISHER_ANSWER s', PUBLISHER_URI s', PUBLICATIONDATE_ANSWER s', GENRE_ANSWER s', ABSTRACT_ANSWER s')
   = (AUTHOR_ANSWER s, AUTHOR_URI s, PUBLISHER_ANSWER s, PUBLISHER_URI s, PUBLICATIONDATE_ANSWER s, GENRE_ANSWER s, ABSTRACT_ANSWER s)"
  by (auto simp: pages_body_def and_then_Inr)

lemma genre_body_others:
  "genre_body x s = Inr s' \<Longrightarrow>
   (AUTHOR_ANSWER s', AUTHOR_URI s', PUBLISHER_ANSWER s', PUBLISHER_URI s', PUBLICATIONDATE_ANSWER s', PAGES_ANSWER s', ABSTRACT_ANSWER s')
   = (AUTHOR_ANSWER s, AUTHOR_URI s, PUBLISHER_ANSWER s, PUBLISHER_URI s, PUBLICATIONDATE_ANSWER s, PAGES_ANSWER s, ABSTRACT_ANSWER s)"
  by (auto simp: genre_body_def and_then_Inr)

lemma abstract_field_others:
  "abstract_field dic kv s = Inr s' \<Longrightarrow>
   (AUTHOR_ANSWER s', AUTHOR_URI s', PUBLISHER_ANSWER s', PUBLISHER_URI s', PUBLICATIONDATE_ANSWER s', PAGES_ANSWER s', GENRE_ANSWER s')
   = (AUTHOR_ANSWER s, AUTHOR_URI s, PUBLISHER_ANSWER s, PUBLISHER_URI s, PUBLICATIONDATE_ANSWER s, PAGES_ANSWER s, GENRE_ANSWER s)"
  by (auto simp: abstract_field_def and_then_Inr split: if_splits)

lemma abstract_body_others:
  assumes "abstract_body dic s = Inr s'"
  shows "(AUTHOR_ANSWER s', AUTHOR_URI s', PUBLISHER_ANSWER s', PUBLISHER_URI s', PUBLICATIONDATE_ANSWER s', PAGES_ANSWER s', GENRE_ANSWER s')
   = (AUTHOR_ANSWER s, AUTHOR_URI s, PUBLISHER_ANSWER s, PUBLISHER_URI s, PUBLICATIONDATE_ANSWER s, PAGES_ANSWER s, GENRE_ANSWER s)"
proof -
  from assms obtain kvs where "for_each (abstract_field dic) kvs s = Inr s'"
    by (auto simp: abstract_body_def and_then_Inr)
  then show ?thesis
    by (rule for_each_preserves [rotated]) (rule abstract_field_others)
qed

lemma author_loop_others:
  assumes "loop_over v r author_body a = Inr a'"
  shows "(PUBLISHER_ANSWER a', PUBLISHER_URI a', PUBLICATIONDATE_ANSWER a', PAGES_ANSWER a', GENRE_ANSWER a', ABSTRACT_ANSWER a')
       = (PUBLISHER_ANSWER a, PUBLISHER_URI a, PUBLICATIONDATE_ANSWER a, PAGES_ANSWER a, GENRE_ANSWER a, ABSTRACT_ANSWER a)"
  by (rule loop_over_preserves
      [where body = author_body
         and f = "\<lambda>s. (PUBLISHER_ANSWER s, PUBLISHER_URI s, PUBLICATIONDATE_ANSWER s, PAGES_ANSWER s, GENRE_ANSWER s, ABSTRACT_ANSWER s)",
       OF author_body_others assms])

lemma publisher_loop_others:
  assumes "loop_over v r publisher_body a = Inr a'"
  shows "(AUTHOR_ANSWER a', AUTHOR_URI a', PUBLICATIONDATE_ANSWER a', PAGES_ANSWER a', GENRE_ANSWER a', ABSTRACT_ANSWER a')
       = (AUTHOR_ANSWER a, AUTHOR_URI a, PUBLICATIONDATE_ANSWER a, PAGES_ANSWER a, GENRE_ANSWER a, ABSTRACT_ANSWER a)"
  by (rule loop_over_preserves
      [where body = publisher_body
         and f = "\<lambda>s. (AUTHOR_ANSWER s, AUTHOR_URI s, PUBLICATIONDATE_ANSWER s, PAGES_ANSWER s, GENRE_ANSWER s, ABSTRACT_ANSWER s)",
       OF publisher_body_others assms])

lemma publicationdate_loop_others:
  assumes "loop_over v r publicationdate_body a = Inr a'"
  shows "(AUTHOR_ANSWER a', AUTHOR_URI a', PUBLISHER_ANSWER a', PUBLISHER_URI a', PAGES_ANSWER a', GENRE_ANSWER a', ABSTRACT_ANSWER a')
       = (AUTHOR_ANSWER a, AUTHOR_URI a, PUBLISHER_ANSWER a, PUBLISHER_URI a, PAGES_ANSWER a, GENRE_ANSWER a, ABSTRACT_ANSWER a)"
  by (rule loop_over_preserves
      [where body = publicationdate_body
         and f = "\<lambda>s. (AUTHOR_ANSWER s, AUTHOR_URI s, PUBLISHER_ANSWER s, PUBLISHER_URI s, PAGES_ANSWER s, GENRE_ANSWER s, ABSTRACT_ANSWER s)",
       OF publicationdate_body_others assms])

lemma pages_loop_others:
  assumes "loop_over v r pages_body a = Inr a'"
  shows "(AUTHOR_ANSWER a', AUTHOR_URI a', PUBLISHER_ANSWER a', PUBLISHER_URI a', PUBLICATIONDATE_ANSWER a', GENRE_ANSWER a', ABSTRACT_ANSWER a')
       = (AUTHOR_ANSWER a, AUTHOR_URI a, PUBLISHER_ANSWER a, PUBLISHER_URI a, PUBLICATIONDATE_ANSWER a, GENRE_ANSWER a, ABSTRACT_ANSWER a)"
  by (rule loop_over_preserves
      [where body = pages_body
         and f = "\<lambda>s. (AUTHOR_ANSWER s, AUTHOR_URI s, PUBLISHER_ANSWER s, PUBLISHER_URI s, PUBLICATIONDATE_ANSWER s, GENRE_ANSWER s, ABSTRACT_ANSWER s)",
       OF pages_body_others assms])

lemma genre_loop_others:
  assumes "loop_over v r genre_body a = Inr a'"
  shows "(AUTHOR_ANSWER a', AUTHOR_URI a', PUBLISHER_ANSWER a', PUBLISHER_URI a', PUBLICATIONDATE_ANSWER a', PAGES_ANSWER a', ABSTRACT_ANSWER a')
       = (AUTHOR_ANSWER a, AUTHOR_URI a, PUBLISHER_ANSWER a, PUBLISHER_URI a, PUBLICATIONDATE_ANSWER a, PAGES_ANSWER a, ABSTRACT_ANSWER a)"
  by (rule loop_over_preserves
      [where body = genre_body
         and f = "\<lambda>s. (AUTHOR_ANSWER s, AUTHOR_URI s, PUBLISHER_ANSWER s, PUBLISHER_URI s, PUBLICATIONDATE_ANSWER s, PAGES_ANSWER s, ABSTRACT_ANSWER s)",
       OF genre_body_others assms])

lemma abstract_loop_others:
  assumes "loop_over v r abstract_body a = Inr a'"
  shows "(AUTHOR_ANSWER a', AUTHOR_URI a', PUBLISHER_ANSWER a', PUBLISHER_URI a', PUBLICATIONDATE_ANSWER a', PAGES_ANSWER a', GENRE_ANSWER a')
       = (AUTHOR_ANSWER a, AUTHOR_URI a, PUBLISHER_ANSWER a, PUBLISHER_URI a, PUBLICATIONDATE_ANSWER a, PAGES_ANSWER a, GENRE_ANSWER a)"
  by (rule loop_over_preserves
      [where body = abstract_body
         and f = "\<lambda>s. (AUTHOR_ANSWER s, AUTHOR_URI s, PUBLISHER_ANSWER s, PUBLISHER_URI s, PUBLICATIONDATE_ANSWER s, PAGES_ANSWER s, GENRE_ANSWER s)",
       OF abstract_body_others assms])

lemma predicate_step_cases:
  assumes "predicate_step v (r, asp) a = Inr a'"
  obtains (author) "r = AUTHOR_ID" "loop_over v r author_body a = Inr a'"
  | (publisher) "r = PUBLISHER_ID" "loop_over v r publisher_body a = Inr a'"
  | (publicationdate) "r = PUBLICATIONDATE_ID" "loop_over v r publicationdate_body a = Inr a'"
  | (pages) "r = PAGES_ID" "loop_over v r pages_body a = Inr a'"
  | (genre) "r = GENRE_ID" "loop_over v r genre_body a = Inr a'"
  | (abstract) "r = ABSTRACT_ID" "loop_over v r abstract_body a = Inr a'"
  | (none) "r \<notin> set [AUTHOR_ID, PUBLISHER_ID, PUBLICATIONDATE_ID, PAGES_ID, GENRE_ID, ABSTRACT_ID]"
      "a' = a"
  using assms by (auto simp: predicate_step_def Let_def split: if_splits)

text \<open>What each loop does to its own answer, through the three nested loops.\<close>

lemma as_str_Inr: "as_str v = Inr s \<longleftrightarrow> v = JStr s"
  by (cases v) (simp_all add: as_str_def)

lemma author_body_own:
  "author_body x s = Inr s' \<Longrightarrow> (\<lambda>obj p. getitem obj ''value'' = Inr (JStr (fst p)) \<and> snd p = label_of (fst p)) x ((\<lambda>s. (AUTHOR_URI s, AUTHOR_ANSWER s)) s')"
  by (auto simp: author_body_def and_then_Inr as_str_Inr)

lemma predicate_step_author:
  assumes "predicate_step v ra a = Inr a'"
  shows "if objects_under AUTHOR_ID v ra = [] then (\<lambda>s. (AUTHOR_URI s, AUTHOR_ANSWER s)) a' = (\<lambda>s. (AUTHOR_URI s, AUTHOR_ANSWER s)) a
         else (\<lambda>obj p. getitem obj ''value'' = Inr (JStr (fst p)) \<and> snd p = label_of (fst p)) (last (objects_under AUTHOR_ID v ra)) ((\<lambda>s. (AUTHOR_URI s, AUTHOR_ANSWER s)) a')"
proof -
  obtain r asp where ra: "ra = (r, asp)" by (cases ra)
  from assms [unfolded ra] show ?thesis
  proof (cases rule: predicate_step_cases)
    case author
    have "if objects_under r v (r, asp) = [] then (\<lambda>s. (AUTHOR_URI s, AUTHOR_ANSWER s)) a' = (\<lambda>s. (AUTHOR_URI s, AUTHOR_ANSWER s)) a
          else (\<lambda>obj p. getitem obj ''value'' = Inr (JStr (fst p)) \<and> snd p = label_of (fst p)) (last (objects_under r v (r, asp))) ((\<lambda>s. (AUTHOR_URI s, AUTHOR_ANSWER s)) a')"
      by (rule loop_over_last [where Q = "\<lambda>obj p. getitem obj ''value'' = Inr (JStr (fst p)) \<and> snd p = label_of (fst p)" and f = "\<lambda>s. (AUTHOR_URI s, AUTHOR_ANSWER s)" and body = author_body, OF _ author(2)])
        (rule author_body_own)
    then show ?thesis unfolding ra author(1) by (simp cong: if_cong)
  next
    case publisher
    with ids_distinct have "objects_under AUTHOR_ID v ra = []"
      by (auto simp: objects_under_def ra)
    with publisher_loop_others [OF publisher(2)] show ?thesis by simp
  next
    case publicationdate
    with ids_distinct have "objects_under AUTHOR_ID v ra = []"
      by (auto simp: objects_under_def ra)
    with publicationdate_loop_others [OF publicationdate(2)] show ?thesis by simp
  next
    case pages
    with ids_distinct have "objects_under AUTHOR_ID v ra = []"
      by (auto simp: objects_under_def ra)
    with pages_loop_others [OF pages(2)] show ?thesis by simp
  next
    case genre
    with ids_distinct have "objects_under AUTHOR_ID v ra = []"
      by (auto simp: objects_under_def ra)
    with genre_loop_others [OF genre(2)] show ?thesis by simp
  next
    case abstract
    with ids_distinct have "objects_under AUTHOR_ID v ra = []"
      by (auto simp: objects_under_def ra)
    with abstract_loop_others [OF abstract(2)] show ?thesis by simp
  next
    case none
    then show ?thesis by (auto simp: objects_under_def ra)
  qed
qed

lemma publisher_body_own:
  "publisher_body x s = Inr s' \<Longrightarrow> (\<lambda>obj p. getitem obj ''value'' = Inr (JStr (fst p)) \<and> snd p = label_of (fst p)) x ((\<lambda>s. (PUBLISHER_URI s, PUBLISHER_ANSWER s)) s')"
  by (auto simp: publisher_body_def and_then_Inr as_str_Inr)

lemma predicate_step_publisher:
  assumes "predicate_step v ra a = Inr a'"
  shows "if objects_under PUBLISHER_ID v ra = [] then (\<lambda>s. (PUBLISHER_URI s, PUBLISHER_ANSWER s)) a' = (\<lambda>s. (PUBLISHER_URI s, PUBLISHER_ANSWER s)) a
         else (\<lambda>obj p. getitem obj ''value'' = Inr (JStr (fst p)) \<and> snd p = label_of (fst p)) (last (objects_under PUBLISHER_ID v ra)) ((\<lambda>s. (PUBLISHER_URI s, PUBLISHER_ANSWER s)) a')"
proof -
  obtain r asp where ra: "ra = (r, asp)" by (cases ra)
  from assms [unfolded ra] show ?thesis
  proof (cases rule: predicate_step_cases)
    case author
    with ids_distinct have "objects_under PUBLISHER_ID v ra = []"
      by (auto simp: objects_under_def ra)
    with author_loop_others [OF author(2)] show ?thesis by simp
  next
    case publisher
    have "if objects_under r v (r, asp) = [] then (\<lambda>s. (PUBLISHER_URI s, PUBLISHER_ANSWER s)) a' = (\<lambda>s. (PUBLISHER_URI s, PUBLISHER_ANSWER s)) a
          else (\<lambda>obj p. getitem obj ''value'' = Inr (JStr (fst p)) \<and> snd p = label_of (fst p)) (last (objects_under r v (r, asp))) ((\<lambda>s. (PUBLISHER_URI s, PUBLISHER_ANSWER s)) a')"
      by (rule loop_over_last [where Q = "\<lambda>obj p. getitem obj ''value'' = Inr (JStr (fst p)) \<and> snd p = label_of (fst p)" and f = "\<lambda>s. (PUBLISHER_URI s, PUBLISHER_ANSWER s)" and body = publisher_body, OF _ publisher(2)])
        (rule publisher_body_own)
    then show ?thesis unfolding ra publisher(1) by (simp cong: if_cong)
  next
    case publicationdate
    with ids_distinct have "objects_under PUBLISHER_ID v ra = []"
      by (auto simp: objects_under_def ra)
    with publicationdate_loop_others [OF publicationdate(2)] show ?thesis by simp
  next
    case pages
    with ids_distinct have "objects_under PUBLISHER_ID v ra = []"
      by (auto simp: objects_under_def ra)
    with pages_loop_others [OF pages(2)] show ?thesis by simp
  next
    case genre
    with ids_distinct have "objects_under PUBLISHER_ID v ra = []"
      by (auto simp: objects_under_def ra)
    with genre_loop_others [OF genre(2)] show ?thesis by simp
  next
    case abstract
    with ids_distinct have "objects_under PUBLISHER_ID v ra = []"
      by (auto simp: objects_under_def ra)
    with abstract_loop_others [OF abstract(2)] show ?thesis by simp
  next
    case none
    then show ?thesis by (auto simp: objects_under_def ra)
  qed
qed

lemma publicationdate_body_own:
  "publicationdate_body x s = Inr s' \<Longrightarrow> (\<lambda>obj x. getitem obj ''value'' = Inr x) x ((PUBLICATIONDATE_ANSWER) s')"
  by (auto simp: publicationdate_body_def and_then_Inr as_str_Inr)

lemma predicate_step_publicationdate:
  assumes "predicate_step v ra a = Inr a'"
  shows "if objects_under PUBLICATIONDATE_ID v ra = [] then (PUBLICATIONDATE_ANSWER) a' = (PUBLICATIONDATE_ANSWER) a
         else (\<lambda>obj x. getitem obj ''value'' = Inr x) (last (objects_under PUBLICATIONDATE_ID v ra)) ((PUBLICATIONDATE_ANSWER) a')"
proof -
  obtain r asp where ra: "ra = (r, asp)" by (cases ra)
  from assms [unfolded ra] show ?thesis
  proof (cases rule: predicate_step_cases)
    case author
    with ids_distinct have "objects_under PUBLICATIONDATE_ID v ra = []"
      by (auto simp: objects_under_def ra)
    with author_loop_others [OF author(2)] show ?thesis by simp
  next
    case publisher
    with ids_distinct have "objects_under PUBLICATIONDATE_ID v ra = []"
      by (auto simp: objects_under_def ra)
    with publisher_loop_others [OF publisher(2)] show ?thesis by simp
  next
    case publicationdate
    have "if objects_under r v (r, asp) = [] then (PUBLICATIONDATE_ANSWER) a' = (PUBLICATIONDATE_ANSWER) a
          else (\<lambda>obj x. getitem obj ''value'' = Inr x) (last (objects_under r v (r, asp))) ((PUBLICATIONDATE_ANSWER) a')"
      by (rule loop_over_last [where Q = "\<lambda>obj x. getitem obj ''value'' = Inr x" and f = "PUBLICATIONDATE_ANSWER" and body = publicationdate_body, OF _ publicationdate(2)])
        (rule publicationdate_body_own)
    then show ?thesis unfolding ra publicationdate(1) by (simp cong: if_cong)
  next
    case pages
    with ids_distinct have "objects_under PUBLICATIONDATE_ID v ra = []"
      by (auto simp: objects_under_def ra)
    with pages_loop_others [OF pages(2)] show ?thesis by simp
  next
    case genre
    with ids_distinct have "objects_under PUBLICATIONDATE_ID v ra = []"
      by (auto simp: objects_under_def ra)
    with genre_loop_others [OF genre(2)] show ?thesis by simp
  next
    case abstract
    with ids_distinct have "objects_under PUBLICATIONDATE_ID v ra = []"
      by (auto simp: objects_under_def ra)
    with abstract_loop_others [OF abstract(2)] show ?thesis by simp
  next
    case none
    then show ?thesis by (auto simp: objects_under_def ra)
  qed
qed

lemma pages_body_own:
  "pages_body x s = Inr s' \<Longrightarrow> (\<lambda>obj x. getitem obj ''value'' = Inr x) x ((PAGES_ANSWER) s')"
  by (auto simp: pages_body_def and_then_Inr as_str_Inr)

lemma predicate_step_pages:
  assumes "predicate_step v ra a = Inr a'"
  shows "if objects_under PAGES_ID v ra = [] then (PAGES_ANSWER) a' = (PAGES_ANSWER) a
         else (\<lambda>obj x. getitem obj ''value'' = Inr x) (last (objects_under PAGES_ID v ra)) ((PAGES_ANSWER) a')"
proof -
  obtain r asp where ra: "ra = (r, asp)" by (cases ra)
  from assms [unfolded ra] show ?thesis
  proof (cases rule: predicate_step_cases)
    case author
    with ids_distinct have "objects_under PAGES_ID v ra = []"
      by (auto simp: objects_under_def ra)
    with author_loop_others [OF author(2)] show ?thesis by simp
  next
    case publisher
    with ids_distinct have "objects_under PAGES_ID v ra = []"
      by (auto simp: objects_under_def ra)
    with publisher_loop_others [OF publisher(2)] show ?thesis by simp
  next
    case publicationdate
    with ids_distinct have "objects_under PAGES_ID v ra = []"
      by (auto simp: objects_under_def ra)
    with publicationdate_loop_others [OF publicationdate(2)] show ?thesis by simp
  next
    case pages
    have "if objects_under r v (r, asp) = [] then (PAGES_ANSWER) a' = (PAGES_ANSWER) a
          else (\<lambda>obj x. getitem obj ''value'' = Inr x) (last (objects_under r v (r, asp))) ((PAGES_ANSWER) a')"
      by (rule loop_over_last [where Q = "\<lambda>obj x. getitem obj ''value'' = Inr x" and f = "PAGES_ANSWER" and body = pages_body, OF _ pages(2)])
        (rule pages_body_own)
    then show ?thesis unfolding ra pages(1) by (simp cong: if_cong)
  next
    case genre
    with ids_distinct have "objects_under PAGES_ID v ra = []"
      by (auto simp: objects_under_def ra)
    with genre_loop_others [OF genre(2)] show ?thesis by simp
  next
    case abstract
    with ids_distinct have "objects_under PAGES_ID v ra = []"
      by (auto simp: objects_under_def ra)
    with abstract_loop_others [OF abstract(2)] show ?thesis by simp
  next
    case none
    then show ?thesis by (auto simp: objects_under_def ra)
  qed
qed

lemma genre_body_own:
  "genre_body x s = Inr s' \<Longrightarrow> (\<lambda>obj g. \<exists>u. getitem obj ''value'' = Inr (JStr u) \<and> g = label_of u) x ((GENRE_ANSWER) s')"
  by (auto simp: genre_body_def and_then_Inr as_str_Inr)

lemma predicate_step_genre:
  assumes "predicate_step v ra a = Inr a'"
  shows "if objects_under GENRE_ID v ra = [] then (GENRE_ANSWER) a' = (GENRE_ANSWER) a
         else (\<lambda>obj g. \<exists>u. getitem obj ''value'' = Inr (JStr u) \<and> g = label_of u) (last (objects_under GENRE_ID v ra)) ((GENRE_ANSWER) a')"
proof -
  obtain r asp where ra: "ra = (r, asp)" by (cases ra)
  from assms [unfolded ra] show ?thesis
  proof (cases rule: predicate_step_cases)
    case author
    with ids_distinct have "objects_under GENRE_ID v ra = []"
      by (auto simp: objects_under_def ra)
    with author_loop_others [OF author(2)] show ?thesis by simp
  next
    case publisher
    with ids_distinct have "objects_under GENRE_ID v ra = []"
      by (auto simp: objects_under_def ra)
    with publisher_loop_others [OF publisher(2)] show ?thesis by simp
  next
    case publicationdate
    with ids_distinct have "objects_under GENRE_ID v ra = []"
      by (auto simp: objects_under_def ra)
    with publicationdate_loop_others [OF publicationdate(2)] show ?thesis by simp
  next
    case pages
    with ids_distinct have "objects_under GENRE_ID v ra = []"
      by (auto simp: objects_under_def ra)
    with pages_loop_others [OF pages(2)] show ?thesis by simp
  next
    case genre
    have "if objects_under r v (r, asp) = [] then (GENRE_ANSWER) a' = (GENRE_ANSWER) a
          else (\<lambda>obj g. \<exists>u. getitem obj ''value'' = Inr (JStr u) \<and> g = label_of u) (last (objects_under r v (r, asp))) ((GENRE_ANSWER) a')"
      by (rule loop_over_last [where Q = "\<lambda>obj g. \<exists>u. getitem obj ''value'' = Inr (JStr u) \<and> g = label_of u" and f = "GENRE_ANSWER" and body = genre_body, OF _ genre(2)])
        (rule genre_body_own)
    then show ?thesis unfolding ra genre(1) by (simp cong: if_cong)
  next
    case abstract
    with ids_distinct have "objects_under GENRE_ID v ra = []"
      by (auto simp: objects_under_def ra)
    with abstract_loop_others [OF abstract(2)] show ?thesis by simp
  next
    case none
    then show ?thesis by (auto simp: objects_under_def ra)
  qed
qed

lemma abstract_body_own:
  "abstract_body x s = Inr s' \<Longrightarrow> (\<lambda>obj x. True) x ((ABSTRACT_ANSWER) s')"
  by simp

lemma predicate_step_abstract:
  assumes "predicate_step v ra a = Inr a'"
  shows "if objects_under ABSTRACT_ID v ra = [] then (ABSTRACT_ANSWER) a' = (ABSTRACT_ANSWER) a
         else (\<lambda>obj x. True) (last (objects_under ABSTRACT_ID v ra)) ((ABSTRACT_ANSWER) a')"
proof -
  obtain r asp where ra: "ra = (r, asp)" by (cases ra)
  from assms [unfolded ra] show ?thesis
  proof (cases rule: predicate_step_cases)
    case author
    with ids_distinct have "objects_under ABSTRACT_ID v ra = []"
      by (auto simp: objects_under_def ra)
    with author_loop_others [OF author(2)] show ?thesis by simp
  next
    case publisher
    with ids_distinct have "objects_under ABSTRACT_ID v ra = []"
      by (auto simp: objects_under_def ra)
    with publisher_loop_others [OF publisher(2)] show ?thesis by simp
  next
    case publicationdate
    with ids_distinct have "objects_under ABSTRACT_ID v ra = []"
      by (auto simp: objects_under_def ra)
    with publicationdate_loop_others [OF publicationdate(2)] show ?thesis by simp
  next
    case pages
    with ids_distinct have "objects_under ABSTRACT_ID v ra = []"
      by (auto simp: objects_under_def ra)
    with pages_loop_others [OF pages(2)] show ?thesis by simp
  next
    case genre
    with ids_distinct have "objects_under ABSTRACT_ID v ra = []"
      by (auto simp: objects_under_def ra)
    with genre_loop_others [OF genre(2)] show ?thesis by simp
  next
    case abstract
    have "if objects_under r v (r, asp) = [] then (ABSTRACT_ANSWER) a' = (ABSTRACT_ANSWER) a
          else (\<lambda>obj x. True) (last (objects_under r v (r, asp))) ((ABSTRACT_ANSWER) a')"
      by (rule loop_over_last [where Q = "\<lambda>obj x. True" and f = "ABSTRACT_ANSWER" and body = abstract_body, OF _ abstract(2)])
        (rule abstract_body_own)
    then show ?thesis unfolding ra abstract(1) by (simp cong: if_cong)
  next
    case none
    then show ?thesis by (auto simp: objects_under_def ra)
  qed
qed

lemma subject_step_last:
  assumes step: "\<And>v ra a a'. predicate_step v ra a = Inr a' \<Longrightarrow>
      (if objects_under X v ra = [] then f a' = f a else Q (last (objects_under X v ra)) (f a'))"
    and run: "subject_step kv s = Inr s'"
  shows "if subject_objects X kv = [] then f s' = f s else Q (last (subject_objects X kv)) (f s')"
proof -
  from run obtain ras where i: "items (snd kv) = Inr ras"
    and fe: "for_each (predicate_step (snd kv)) ras s = Inr s'"
    by (auto simp: subject_step_def and_then_Inr)
  have o: "subject_objects X kv = concat (map (objects_under X (snd kv)) ras)"
    by (simp add: subject_objects_def i)
  show ?thesis
    unfolding o
    by (rule for_each_last [where objs = "objects_under X (snd kv)" and f = f and Q = Q, OF _ fe])
      (rule step)
qed

lemma extract_answers_last:
  assumes step: "\<And>v ra a a'. predicate_step v ra a = Inr a' \<Longrightarrow>
      (if objects_under X v ra = [] then f a' = f a else Q (last (objects_under X v ra)) (f a'))"
    and run: "extract_answers json_dict = Inr a"
  shows "if value_objects X json_dict = [] then f a = f initial_answers
         else Q (last (value_objects X json_dict)) (f a)"
proof -
  from run obtain kvs where i: "items json_dict = Inr kvs"
    and fe: "for_each subject_step kvs initial_answers = Inr a"
    by (auto simp: extract_answers_def and_then_Inr)
  have o: "value_objects X json_dict = concat (map (subject_objects X) kvs)"
    by (simp add: value_objects_def i)
  show ?thesis
    unfolding o
    by (rule for_each_last [where objs = "subject_objects X" and f = f and Q = Q, OF _ fe])
      (rule subject_step_last [where f = f and Q = Q, OF step])
qed

lemma extract_answers_author:
  assumes "extract_answers json_dict = Inr a"
  shows "if value_objects AUTHOR_ID json_dict = [] then (\<lambda>s. (AUTHOR_URI s, AUTHOR_ANSWER s)) a = (\<lambda>s. (AUTHOR_URI s, AUTHOR_ANSWER s)) initial_answers
         else (\<lambda>obj p. getitem obj ''value'' = Inr (JStr (fst p)) \<and> snd p = label_of (fst p)) (last (value_objects AUTHOR_ID json_dict)) ((\<lambda>s. (AUTHOR_URI s, AUTHOR_ANSWER s)) a)"
  by (rule extract_answers_last
      [where f = "\<lambda>s. (AUTHOR_URI s, AUTHOR_ANSWER s)" and Q = "\<lambda>obj p. getitem obj ''value'' = Inr (JStr (fst p)) \<and> snd p = label_of (fst p)",
       OF predicate_step_author assms])

lemma extract_answers_publisher:
  assumes "extract_answers json_dict = Inr a"
  shows "if value_objects PUBLISHER_ID json_dict = [] then (\<lambda>s. (PUBLISHER_URI s, PUBLISHER_ANSWER s)) a = (\<lambda>s. (PUBLISHER_URI s, PUBLISHER_ANSWER s)) initial_answers
         else (\<lambda>obj p. getitem obj ''value'' = Inr (JStr (fst p)) \<and> snd p = label_of (fst p)) (last (value_objects PUBLISHER_ID json_dict)) ((\<lambda>s. (PUBLISHER_URI s, PUBLISHER_ANSWER s)) a)"
  by (rule extract_answers_last
      [where f = "\<lambda>s. (PUBLISHER_URI s, PUBLISHER_ANSWER s)" and Q = "\<lambda>obj p. getitem obj ''value'' = Inr (JStr (fst p)) \<and> snd p = label_of (fst p)",
       OF predicate_step_publisher assms])

lemma extract_answers_publicationdate:
  assumes "extract_answers json_dict = Inr a"
  shows "if value_objects PUBLICATIONDATE_ID json_dict = [] then (PUBLICATIONDATE_ANSWER) a = (PUBLICATIONDATE_ANSWER) initial_answers
         else (\<lambda>obj x. getitem obj ''value'' = Inr x) (last (value_objects PUBLICATIONDATE_ID json_dict)) ((PUBLICATIONDATE_ANSWER) a)"
  by (rule extract_answers_last
      [where f = "PUBLICATIONDATE_ANSWER" and Q = "\<lambda>obj x. getitem obj ''value'' = Inr x",
       OF predicate_step_publicationdate assms])

lemma extract_answers_pages:
  assumes "extract_answers json_dict = Inr a"
  shows "if value_objects PAGES_ID json_dict = [] then (PAGES_ANSWER) a = (PAGES_ANSWER) initial_answers
         else (\<lambda>obj x. getitem obj ''value'' = Inr x) (last (value_objects PAGES_ID json_dict)) ((PAGES_ANSWER) a)"
  by (rule extract_answers_last
      [where f = "PAGES_ANSWER" and Q = "\<lambda>obj x. getitem obj ''value'' = Inr x",
       OF predicate_step_pages assms])

lemma extract_answers_genre:
  assumes "extract_answers json_dict = Inr a"
  shows "if value_objects GENRE_ID json_dict = [] then (GENRE_ANSWER) a = (GENRE_ANSWER) initial_answers
         else (\<lambda>obj g. \<exists>u. getitem obj ''value'' = Inr (JStr u) \<and> g = label_of u) (last (value_objects GENRE_ID json_dict)) ((GENRE_ANSWER) a)"
  by (rule extract_answers_last
      [where f = "GENRE_ANSWER" and Q = "\<lambda>obj g. \<exists>u. getitem obj ''value'' = Inr (JStr u) \<and> g = label_of u",
       OF predicate_step_genre assms])

lemma extract_answers_abstract:
  assumes "extract_answers json_dict = Inr a"
  shows "if value_objects ABSTRACT_ID json_dict = [] then (ABSTRACT_ANSWER) a = (ABSTRACT_ANSWER) initial_answers
         else (\<lambda>obj x. True) (last (value_objects ABSTRACT_ID json_dict)) ((ABSTRACT_ANSWER) a)"
  by (rule extract_answers_last
      [where f = "ABSTRACT_ANSWER" and Q = "\<lambda>obj x. True",
       OF predicate_step_abstract assms])

text \<open>The label is the final path segment, with a blank for every underscore.\<close>

lemma split_nonempty: "split c s \<noteq> []"
  by (induction s) (auto split: list.splits)

lemma split_without: "c \<notin> set s \<Longrightarrow> split c s = [s]"
  by (induction s) auto

lemma split_with: "c \<in> set s \<Longrightarrow> \<exists>w v vs. split c s = w # v # vs"
proof (induction s)
  case Nil
  then show ?case by simp
next
  case (Cons x xs)
  show ?case
  proof (cases "x = c")
    case True
    with split_nonempty [of c xs] show ?thesis by (cases "split c xs") auto
  next
    case False
    with Cons obtain w v vs where "split c xs = w # v # vs" by auto
    with False show ?thesis by simp
  qed
qed

lemma last_split: "last (split c s) = rev (takeWhile (\<lambda>x. x \<noteq> c) (rev s))"
proof (induction s)
  case Nil
  show ?case by simp
next
  case (Cons x xs)
  show ?case
  proof (cases "x = c")
    case True
    then show ?thesis
      using Cons split_nonempty [of c xs] by (simp add: takeWhile_append)
  next
    case False
    show ?thesis
    proof (cases "c \<in> set xs")
      case True
      with split_with obtain w v vs where s: "split c xs = w # v # vs" by blast
      from True have "takeWhile (\<lambda>x. x \<noteq> c) (rev xs @ [x]) = takeWhile (\<lambda>x. x \<noteq> c) (rev xs)"
        by (intro takeWhile_append1 [where x = c]) auto
      with Cons s False show ?thesis by simp
    next
      case n: False
      with False have "c \<notin> set (x # xs)" by simp
      then have "takeWhile (\<lambda>x. x \<noteq> c) (rev (x # xs)) = rev (x # xs)"
        by (simp only: takeWhile_eq_all_conv set_rev) blast
      then have t: "x # xs = rev (takeWhile (\<lambda>x. x \<noteq> c) (rev (x # xs)))"
        by (simp only: rev_rev_ident)
      have sp: "split c (x # xs) = [x # xs]"
        using \<open>c \<notin> set (x # xs)\<close> by (rule split_without)
      have "last (split c (x # xs)) = x # xs"
        unfolding sp by simp
      also note t
      finally show ?thesis .
    qed
  qed
qed

lemma replace_char: "replace [a] [b] s = map (\<lambda>x. if x = a then b else x) s"
  by (induction s) auto

lemma label_of_eq: "label_of uri = spaces_for_underscores (final_segment uri)"
  by (simp add: label_of_def spaces_for_underscores_def final_segment_def last_split replace_char)

lemma extract_metadata_returns:
  assumes "urlopen e URI = Response st json_string"
    and "loads e json_string = Some json_dict"
    and "extract_metadata e URI = (tr, Inr metadata)"
  shows "\<exists>a. extract_answers json_dict = Inr a \<and> metadata = metadata_dict a \<and> tr = [Urlopen URI]"
  using assms
  by (cases "extract_answers json_dict")
    (auto simp: extract_metadata_def except_net_error_def and_then_def split: exn.splits)

lemma display_metadata:
  "display_results rp (metadata_dict a) =
     [''- AUTHOR: '' @ AUTHOR_ANSWER a,
      (if AUTHOR_URI a \<noteq> ''not found'' then ''-> for more info see '' @ AUTHOR_URI a
       else ''- AUTHOR_RESOURCE: not found''),
      ''- PUBLISHER: '' @ PUBLISHER_ANSWER a,
      (if PUBLISHER_URI a \<noteq> ''not found'' then ''-> for more info see '' @ PUBLISHER_URI a
       else ''- PUBLISHER_RESOURCE: not found''),
      ''- PUBLICATION DATE: '' @ py_str rp (PUBLICATIONDATE_ANSWER a),
      ''- NUMBER OF PAGES: '' @ py_str rp (PAGES_ANSWER a),
      ''- GENRE: '' @ GENRE_ANSWER a,
      ''- ABSTRACT: '' @ [CHR 0x0A] @ py_str rp (ABSTRACT_ANSWER a)]"
  by (simp add: display_results_def metadata_dict_def display_line_def py_str_def suffix_to_prefix)

lemma run_displays:
  assumes "clean e search = Inr bookname"
    and "getAPIprefix e = (tr1, Inr pfx)"
    and "urlopen e (pfx @ bookname) = Response st result"
    and "extract_books e result = (tr2, Inr URI)"
    and "extract_metadata e URI = (tr3, Inr metadata)"
  shows "query_DBpedia e search =
     (tr1 @ [Urlopen (pfx @ bookname)] @ tr2 @ tr3 @ map Print (display_results (repr e) metadata),
      Inr ())"
  using assms by (simp add: query_DBpedia_def except_net_error_def)

text \<open>
  C5. When \<open>extract_metadata\<close> returns, and the author, publisher, publication date, page
  count or genre predicate of the document it fetched has value objects, the value it
  returns is the \<open>value\<close> field of the last of them in the order of the scan. For author,
  publisher and genre the label it returns and the run displays is the final path segment
  of that value with every underscore replaced by a blank.
\<close>

theorem last_value_object_wins:
  assumes "urlopen e URI = Response st json_string"
    and "loads e json_string = Some json_dict"
    and "extract_metadata e URI = (tr, Inr metadata)"
  shows
    "(value_objects AUTHOR_ID json_dict \<noteq> [] \<longrightarrow>
        (\<exists>u. getitem (last (value_objects AUTHOR_ID json_dict)) ''value'' = Inr (JStr u)
           \<and> map_of metadata ''AUTHOR_RESOURCE'' = Some (JStr u)
           \<and> map_of metadata ''AUTHOR'' = Some (JStr (spaces_for_underscores (final_segment u)))
           \<and> display_results (repr e) metadata ! 0
               = ''- AUTHOR: '' @ spaces_for_underscores (final_segment u)
           \<and> (u \<noteq> ''not found'' \<longrightarrow>
                display_results (repr e) metadata ! 1 = ''-> for more info see '' @ u)))
     \<and> (value_objects PUBLISHER_ID json_dict \<noteq> [] \<longrightarrow>
        (\<exists>u. getitem (last (value_objects PUBLISHER_ID json_dict)) ''value'' = Inr (JStr u)
           \<and> map_of metadata ''PUBLISHER_RESOURCE'' = Some (JStr u)
           \<and> map_of metadata ''PUBLISHER'' = Some (JStr (spaces_for_underscores (final_segment u)))
           \<and> display_results (repr e) metadata ! 2
               = ''- PUBLISHER: '' @ spaces_for_underscores (final_segment u)
           \<and> (u \<noteq> ''not found'' \<longrightarrow>
                display_results (repr e) metadata ! 3 = ''-> for more info see '' @ u)))
     \<and> (value_objects PUBLICATIONDATE_ID json_dict \<noteq> [] \<longrightarrow>
        (\<exists>x. getitem (last (value_objects PUBLICATIONDATE_ID json_dict)) ''value'' = Inr x
           \<and> map_of metadata ''PUBLICATION DATE'' = Some x
           \<and> display_results (repr e) metadata ! 4 = ''- PUBLICATION DATE: '' @ py_str (repr e) x))
     \<and> (value_objects PAGES_ID json_dict \<noteq> [] \<longrightarrow>
        (\<exists>x. getitem (last (value_objects PAGES_ID json_dict)) ''value'' = Inr x
           \<and> map_of metadata ''NUMBER OF PAGES'' = Some x
           \<and> display_results (repr e) metadata ! 5 = ''- NUMBER OF PAGES: '' @ py_str (repr e) x))
     \<and> (value_objects GENRE_ID json_dict \<noteq> [] \<longrightarrow>
        (\<exists>u. getitem (last (value_objects GENRE_ID json_dict)) ''value'' = Inr (JStr u)
           \<and> map_of metadata ''GENRE'' = Some (JStr (spaces_for_underscores (final_segment u)))
           \<and> display_results (repr e) metadata ! 6
               = ''- GENRE: '' @ spaces_for_underscores (final_segment u)))
     \<and> (\<forall>search bookname tr1 pfx st1 result tr2.
          clean e search = Inr bookname \<and> getAPIprefix e = (tr1, Inr pfx)
          \<and> urlopen e (pfx @ bookname) = Response st1 result
          \<and> extract_books e result = (tr2, Inr URI) \<longrightarrow>
          query_DBpedia e search =
            (tr1 @ [Urlopen (pfx @ bookname)] @ tr2 @ [Urlopen URI]
               @ map Print (display_results (repr e) metadata),
             Inr ()))"
proof -
  from extract_metadata_returns [OF assms] obtain a
    where run: "extract_answers json_dict = Inr a"
      and m: "metadata = metadata_dict a"
      and tr: "tr = [Urlopen URI]"
    by blast
  have mo: "map_of metadata ''AUTHOR'' = Some (JStr (AUTHOR_ANSWER a))"
    "map_of metadata ''AUTHOR_RESOURCE'' = Some (JStr (AUTHOR_URI a))"
    "map_of metadata ''PUBLISHER'' = Some (JStr (PUBLISHER_ANSWER a))"
    "map_of metadata ''PUBLISHER_RESOURCE'' = Some (JStr (PUBLISHER_URI a))"
    "map_of metadata ''PUBLICATION DATE'' = Some (PUBLICATIONDATE_ANSWER a)"
    "map_of metadata ''NUMBER OF PAGES'' = Some (PAGES_ANSWER a)"
    "map_of metadata ''GENRE'' = Some (JStr (GENRE_ANSWER a))"
    by (simp_all add: m metadata_dict_def)
  have dl: "display_results (repr e) metadata ! 0 = ''- AUTHOR: '' @ AUTHOR_ANSWER a"
    "AUTHOR_URI a \<noteq> ''not found'' \<Longrightarrow>
      display_results (repr e) metadata ! Suc 0 = ''-> for more info see '' @ AUTHOR_URI a"
    "display_results (repr e) metadata ! 2 = ''- PUBLISHER: '' @ PUBLISHER_ANSWER a"
    "PUBLISHER_URI a \<noteq> ''not found'' \<Longrightarrow>
      display_results (repr e) metadata ! 3 = ''-> for more info see '' @ PUBLISHER_URI a"
    "display_results (repr e) metadata ! 4
      = ''- PUBLICATION DATE: '' @ py_str (repr e) (PUBLICATIONDATE_ANSWER a)"
    "display_results (repr e) metadata ! 5 = ''- NUMBER OF PAGES: '' @ py_str (repr e) (PAGES_ANSWER a)"
    "display_results (repr e) metadata ! 6 = ''- GENRE: '' @ GENRE_ANSWER a"
    unfolding m display_metadata by simp_all
  have author: "\<exists>u. getitem (last (value_objects AUTHOR_ID json_dict)) ''value'' = Inr (JStr u)
           \<and> map_of metadata ''AUTHOR_RESOURCE'' = Some (JStr u)
           \<and> map_of metadata ''AUTHOR'' = Some (JStr (spaces_for_underscores (final_segment u)))
           \<and> display_results (repr e) metadata ! 0
               = ''- AUTHOR: '' @ spaces_for_underscores (final_segment u)
           \<and> (u \<noteq> ''not found'' \<longrightarrow>
                display_results (repr e) metadata ! 1 = ''-> for more info see '' @ u)"
    if "value_objects AUTHOR_ID json_dict \<noteq> []"
    using extract_answers_author [OF run] that
    by (intro exI [of _ "AUTHOR_URI a"]) (simp add: mo dl label_of_eq)
  have publisher: "\<exists>u. getitem (last (value_objects PUBLISHER_ID json_dict)) ''value'' = Inr (JStr u)
           \<and> map_of metadata ''PUBLISHER_RESOURCE'' = Some (JStr u)
           \<and> map_of metadata ''PUBLISHER'' = Some (JStr (spaces_for_underscores (final_segment u)))
           \<and> display_results (repr e) metadata ! 2
               = ''- PUBLISHER: '' @ spaces_for_underscores (final_segment u)
           \<and> (u \<noteq> ''not found'' \<longrightarrow>
                display_results (repr e) metadata ! 3 = ''-> for more info see '' @ u)"
    if "value_objects PUBLISHER_ID json_dict \<noteq> []"
    using extract_answers_publisher [OF run] that
    by (intro exI [of _ "PUBLISHER_URI a"]) (simp add: mo dl label_of_eq)
  have date: "\<exists>x. getitem (last (value_objects PUBLICATIONDATE_ID json_dict)) ''value'' = Inr x
           \<and> map_of metadata ''PUBLICATION DATE'' = Some x
           \<and> display_results (repr e) metadata ! 4 = ''- PUBLICATION DATE: '' @ py_str (repr e) x"
    if "value_objects PUBLICATIONDATE_ID json_dict \<noteq> []"
    using extract_answers_publicationdate [OF run] that
    by (intro exI [of _ "PUBLICATIONDATE_ANSWER a"]) (simp add: mo dl)
  have pages: "\<exists>x. getitem (last (value_objects PAGES_ID json_dict)) ''value'' = Inr x
           \<and> map_of metadata ''NUMBER OF PAGES'' = Some x
           \<and> display_results (repr e) metadata ! 5 = ''- NUMBER OF PAGES: '' @ py_str (repr e) x"
    if "value_objects PAGES_ID json_dict \<noteq> []"
    using extract_answers_pages [OF run] that
    by (intro exI [of _ "PAGES_ANSWER a"]) (simp add: mo dl)
  have genre: "\<exists>u. getitem (last (value_objects GENRE_ID json_dict)) ''value'' = Inr (JStr u)
           \<and> map_of metadata ''GENRE'' = Some (JStr (spaces_for_underscores (final_segment u)))
           \<and> display_results (repr e) metadata ! 6
               = ''- GENRE: '' @ spaces_for_underscores (final_segment u)"
    if "value_objects GENRE_ID json_dict \<noteq> []"
  proof -
    from extract_answers_genre [OF run] that obtain u
      where "getitem (last (value_objects GENRE_ID json_dict)) ''value'' = Inr (JStr u)"
        and "GENRE_ANSWER a = label_of u"
      by auto
    then show ?thesis
      by (intro exI [of _ u]) (simp add: mo dl label_of_eq)
  qed
  have whole: "query_DBpedia e search =
            (tr1 @ [Urlopen (pfx @ bookname)] @ tr2 @ [Urlopen URI]
               @ map Print (display_results (repr e) metadata),
             Inr ())"
    if "clean e search = Inr bookname" and "getAPIprefix e = (tr1, Inr pfx)"
      and "urlopen e (pfx @ bookname) = Response st1 result"
      and "extract_books e result = (tr2, Inr URI)"
    for search bookname tr1 pfx st1 result tr2
    using run_displays [OF that assms(3)] by (simp add: tr)
  from author publisher date pages genre whole show ?thesis by blast
qed

theorem last_value_object_wins_witness:
  "extract_metadata (answering dune_only dune_document None) ''http://dbpedia.org/data/Dune_(novel).json''
     = ([Urlopen ''http://dbpedia.org/data/Dune_(novel).json''],
        Inr [(''AUTHOR'', JStr ''Frank Herbert''),
             (''AUTHOR_RESOURCE'', JStr ''http://dbpedia.org/resource/Frank_Herbert''),
             (''PUBLISHER'', JStr ''Chilton Books''),
             (''PUBLISHER_RESOURCE'', JStr ''http://dbpedia.org/resource/Chilton_Books''),
             (''PUBLICATION DATE'', JStr ''1965''),
             (''NUMBER OF PAGES'', JInt 412),
             (''GENRE'', JStr ''Science fiction''),
             (''ABSTRACT'', JStr ''not found'')])
   \<and> value_objects AUTHOR_ID dune_document
     = [uri_object ''http://dbpedia.org/resource/Brian_Herbert'',
        uri_object ''http://dbpedia.org/resource/Frank_Herbert'']
   \<and> getitem (uri_object ''http://dbpedia.org/resource/Frank_Herbert'') ''value''
     = Inr (JStr ''http://dbpedia.org/resource/Frank_Herbert'')
   \<and> spaces_for_underscores (final_segment ''http://dbpedia.org/resource/Frank_Herbert'')
     = ''Frank Herbert''
   \<and> query_DBpedia (answering dune_only dune_document None) ''Dune'' =
      ([Urlopen (prefixes_list ! 0 @ ''Antwerp''), Urlopen (prefixes_list ! 0 @ ''dune''),
        Print (results_for (Some ''Dune'')),
        Urlopen ''http://dbpedia.org/data/Dune_(novel).json'',
        Print ''- AUTHOR: Frank Herbert'',
        Print ''-> for more info see http://dbpedia.org/resource/Frank_Herbert'',
        Print ''- PUBLISHER: Chilton Books'',
        Print ''-> for more info see http://dbpedia.org/resource/Chilton_Books'',
        Print ''- PUBLICATION DATE: 1965'', Print ''- NUMBER OF PAGES: 412'',
        Print ''- GENRE: Science fiction'',
        Print (''- ABSTRACT: '' @ [CHR 0x0A] @ ''not found'')],
       Inr ())"
proof -
  let ?e = "answering dune_only dune_document None"
  let ?URI = "''http://dbpedia.org/data/Dune_(novel).json''"
  let ?m = "[(''AUTHOR'', JStr ''Frank Herbert''),
             (''AUTHOR_RESOURCE'', JStr ''http://dbpedia.org/resource/Frank_Herbert''),
             (''PUBLISHER'', JStr ''Chilton Books''),
             (''PUBLISHER_RESOURCE'', JStr ''http://dbpedia.org/resource/Chilton_Books''),
             (''PUBLICATION DATE'', JStr ''1965''),
             (''NUMBER OF PAGES'', JInt 412),
             (''GENRE'', JStr ''Science fiction''),
             (''ABSTRACT'', JStr ''not found'')]"
  have u: "urlopen ?e ?URI = Response 200 []" by (simp add: answering_def)
  have l: "loads ?e [] = Some dune_document" by (simp add: answering_def)
  have x: "extract_metadata ?e ?URI = ([Urlopen ?URI], Inr ?m)" by code_simp
  have v: "value_objects AUTHOR_ID dune_document
     = [uri_object ''http://dbpedia.org/resource/Brian_Herbert'',
        uri_object ''http://dbpedia.org/resource/Frank_Herbert'']"
    by code_simp
  have g: "getitem (uri_object ''http://dbpedia.org/resource/Frank_Herbert'') ''value''
     = Inr (JStr ''http://dbpedia.org/resource/Frank_Herbert'')"
    by code_simp
  have f: "spaces_for_underscores (final_segment ''http://dbpedia.org/resource/Frank_Herbert'')
     = ''Frank Herbert''"
    by code_simp
  have c: "clean ?e ''Dune'' = Inr ''dune''" by code_simp
  have p: "getAPIprefix ?e = ([Urlopen (prefixes_list ! 0 @ ''Antwerp'')], Inr (prefixes_list ! 0))"
    by code_simp
  have s: "urlopen ?e (prefixes_list ! 0 @ ''dune'') = Response 200 []"
    by (simp add: answering_def)
  have b: "extract_books ?e [] = ([Print (results_for (Some ''Dune''))], Inr ?URI)"
    by code_simp
  have d: "map Print (display_results (repr ?e) ?m) =
       [Print ''- AUTHOR: Frank Herbert'',
        Print ''-> for more info see http://dbpedia.org/resource/Frank_Herbert'',
        Print ''- PUBLISHER: Chilton Books'',
        Print ''-> for more info see http://dbpedia.org/resource/Chilton_Books'',
        Print ''- PUBLICATION DATE: 1965'', Print ''- NUMBER OF PAGES: 412'',
        Print ''- GENRE: Science fiction'',
        Print (''- ABSTRACT: '' @ [CHR 0x0A] @ ''not found'')]"
    by code_simp
  from last_value_object_wins [OF u l x] c p s b
  have "query_DBpedia ?e ''Dune'' =
      ([Urlopen (prefixes_list ! 0 @ ''Antwerp'')] @ [Urlopen (prefixes_list ! 0 @ ''dune'')]
         @ [Print (results_for (Some ''Dune''))] @ [Urlopen ?URI]
         @ map Print (display_results (repr ?e) ?m),
       Inr ())"
    by blast
  with x v g f show ?thesis by (simp only: d append.simps)
qed

lemma not_carried:
  assumes "\<not> carries X json_dict"
  shows "value_objects X json_dict = []"
proof (cases "items json_dict")
  case (Inl err)
  then show ?thesis by (simp add: value_objects_def)
next
  case (Inr kvs)
  have "subject_objects X kv = []" if "kv \<in> set kvs" for kv
  proof (cases "items (snd kv)")
    case (Inl err)
    then show ?thesis by (simp add: subject_objects_def)
  next
    case r: (Inr ras)
    have "X \<notin> set (map fst ras)"
    proof
      assume x: "X \<in> set (map fst ras)"
      have "list_ex (\<lambda>kv. case items (snd kv) of Inl err \<Rightarrow> False
              | Inr ras \<Rightarrow> X \<in> set (map fst ras)) kvs"
        unfolding list_ex_iff using x by (intro bexI [OF _ that]) (simp add: r)
      with assms Inr show False by (simp add: carries_def)
    qed
    then show ?thesis
      by (auto simp: subject_objects_def r objects_under_def)
  qed
  with Inr show ?thesis by (simp add: value_objects_def)
qed

lemma for_each_unchanged:
  assumes "\<And>x. x \<in> set xs \<Longrightarrow> body x s = Inr s"
  shows "for_each body xs s = Inr s"
  using assms by (induction xs) (simp_all add: and_then_def)

lemma keys_of_ids:
  "keys_of r = [] \<Longrightarrow>
   r \<notin> set [AUTHOR_ID, PUBLISHER_ID, PUBLICATIONDATE_ID, PAGES_ID, GENRE_ID, ABSTRACT_ID]"
  by (auto simp: keys_of_def split: if_splits)

lemma predicate_step_other: "keys_of (fst ra) = [] \<Longrightarrow> predicate_step v ra a = Inr a"
  using keys_of_ids [of "fst ra"] by (simp add: predicate_step_def Let_def)

lemma no_predicate_no_error:
  assumes "\<forall>kv \<in> set kvs. \<exists>ras. snd kv = JObj ras \<and> (\<forall>r \<in> fst ` set ras. keys_of r = [])"
  shows "extract_answers (JObj kvs) = Inr initial_answers"
proof -
  have "subject_step kv a = Inr a" if "kv \<in> set kvs" for kv a
  proof -
    from assms that obtain ras where v: "snd kv = JObj ras"
      and k: "\<forall>r \<in> fst ` set ras. keys_of r = []"
      by blast
    have "for_each (predicate_step (snd kv)) ras a = Inr a"
      by (rule for_each_unchanged) (simp add: predicate_step_other k)
    then show ?thesis by (simp add: subject_step_def v items_def and_then_def)
  qed
  then have "for_each subject_step kvs initial_answers = Inr initial_answers"
    by (intro for_each_unchanged)
  then show ?thesis by (simp add: extract_answers_def items_def and_then_def)
qed

lemma display_not_found:
  "display_line rp (key, JStr ''not found'')
     = ''- '' @ key @ '': '' @ (if key = ''ABSTRACT'' then [CHR 0x0A] else []) @ ''not found''"
  by (simp add: display_line_def py_str_def)

text \<open>
  C4, as the code has it. When the extraction succeeds on a document in which no subject
  has the predicate \<open>X\<close>, every key of the returned dict that \<open>X\<close> fills holds the text
  \<open>not found\<close>, and its printed line is \<open>- KEY: not found\<close> (for the abstract, the label
  line and \<open>not found\<close> on the next). This includes the two resource keys: the form
  \<open>for more info see\<close> is not used for them, the plain line is. A document whose subjects
  have none of the six predicates is extracted without an error.
\<close>

theorem absent_predicate_is_not_found:
  "(extract_answers json_dict = Inr a \<and> \<not> carries X json_dict \<and> key \<in> set (keys_of X) \<longrightarrow>
      (key, JStr ''not found'') \<in> set (metadata_dict a)
      \<and> display_line rp (key, JStr ''not found'')
          = ''- '' @ key @ '': '' @ (if key = ''ABSTRACT'' then [CHR 0x0A] else []) @ ''not found''
      \<and> display_line rp (key, JStr ''not found'') \<in> set (display_results rp (metadata_dict a)))
   \<and> ((\<forall>kv \<in> set kvs. \<exists>ras. snd kv = JObj ras \<and> (\<forall>r \<in> fst ` set ras. keys_of r = [])) \<longrightarrow>
        extract_answers (JObj kvs) = Inr initial_answers)"
proof (intro conjI impI)
  assume h: "extract_answers json_dict = Inr a \<and> \<not> carries X json_dict \<and> key \<in> set (keys_of X)"
  then have run: "extract_answers json_dict = Inr a" and v: "value_objects X json_dict = []"
    and key: "key \<in> set (keys_of X)"
    by (simp_all add: not_carried)
  have i: "AUTHOR_ANSWER initial_answers = ''not found''" "AUTHOR_URI initial_answers = ''not found''"
    "PUBLISHER_ANSWER initial_answers = ''not found''" "PUBLISHER_URI initial_answers = ''not found''"
    "PUBLICATIONDATE_ANSWER initial_answers = JStr ''not found''"
    "PAGES_ANSWER initial_answers = JStr ''not found''"
    "GENRE_ANSWER initial_answers = ''not found''"
    "ABSTRACT_ANSWER initial_answers = JStr ''not found''"
    by (simp_all add: initial_answers_def)
  from key consider "X = AUTHOR_ID" | "X = PUBLISHER_ID" | "X = PUBLICATIONDATE_ID" | "X = PAGES_ID"
    | "X = GENRE_ID" | "X = ABSTRACT_ID"
    by (auto simp: keys_of_def split: if_splits)
  then show m: "(key, JStr ''not found'') \<in> set (metadata_dict a)"
  proof cases
    case 1
    with extract_answers_author [OF run] v key show ?thesis
      by (auto simp: metadata_dict_def keys_of_def i)
  next
    case 2
    with extract_answers_publisher [OF run] v key ids_distinct show ?thesis
      by (auto simp: metadata_dict_def keys_of_def i)
  next
    case 3
    with extract_answers_publicationdate [OF run] v key ids_distinct show ?thesis
      by (auto simp: metadata_dict_def keys_of_def i)
  next
    case 4
    with extract_answers_pages [OF run] v key ids_distinct show ?thesis
      by (auto simp: metadata_dict_def keys_of_def i)
  next
    case 5
    with extract_answers_genre [OF run] v key ids_distinct show ?thesis
      by (auto simp: metadata_dict_def keys_of_def i)
  next
    case 6
    with extract_answers_abstract [OF run] v key ids_distinct show ?thesis
      by (auto simp: metadata_dict_def keys_of_def i)
  qed
  show "display_line rp (key, JStr ''not found'')
          = ''- '' @ key @ '': '' @ (if key = ''ABSTRACT'' then [CHR 0x0A] else []) @ ''not found''"
    by (rule display_not_found)
  from m show "display_line rp (key, JStr ''not found'') \<in> set (display_results rp (metadata_dict a))"
    unfolding display_results_def by (simp only: set_map) (rule imageI)
next
  assume "\<forall>kv \<in> set kvs. \<exists>ras. snd kv = JObj ras \<and> (\<forall>r \<in> fst ` set ras. keys_of r = [])"
  then show "extract_answers (JObj kvs) = Inr initial_answers"
    by (rule no_predicate_no_error)
qed

theorem absent_predicate_is_not_found_witness:
  "extract_answers pages_only = Inr (initial_answers\<lparr>PAGES_ANSWER := JInt 412\<rparr>)
   \<and> \<not> carries AUTHOR_ID pages_only
   \<and> ''AUTHOR_RESOURCE'' \<in> set (keys_of AUTHOR_ID)
   \<and> (''AUTHOR_RESOURCE'', JStr ''not found'')
       \<in> set (metadata_dict (initial_answers\<lparr>PAGES_ANSWER := JInt 412\<rparr>))
   \<and> display_line (repr (answering dune_only pages_only None)) (''AUTHOR_RESOURCE'', JStr ''not found'')
       = ''- AUTHOR_RESOURCE: not found''
   \<and> extract_answers
        (JObj [(''http://dbpedia.org/resource/Dune_(novel)'',
                JObj [(''http://www.w3.org/2000/01/rdf-schema#label'', JArr [])])])
       = Inr initial_answers"
proof -
  have r: "extract_answers pages_only = Inr (initial_answers\<lparr>PAGES_ANSWER := JInt 412\<rparr>)"
    by code_simp
  have c: "\<not> carries AUTHOR_ID pages_only" by code_simp
  have k: "''AUTHOR_RESOURCE'' \<in> set (keys_of AUTHOR_ID)" by code_simp
  have e: "keys_of ''http://www.w3.org/2000/01/rdf-schema#label'' = []" by code_simp
  have h: "\<forall>kv \<in> set [(''http://dbpedia.org/resource/Dune_(novel)'',
                JObj [(''http://www.w3.org/2000/01/rdf-schema#label'', JArr [])])].
      \<exists>ras. snd kv = JObj ras \<and> (\<forall>r \<in> fst ` set ras. keys_of r = [])"
    by (simp add: e)
  from absent_predicate_is_not_found
    [of pages_only "initial_answers\<lparr>PAGES_ANSWER := JInt 412\<rparr>" AUTHOR_ID "''AUTHOR_RESOURCE''"
      "repr (answering dune_only pages_only None)"
      "[(''http://dbpedia.org/resource/Dune_(novel)'',
         JObj [(''http://www.w3.org/2000/01/rdf-schema#label'', JArr [])])]"]
    r c k h
  show ?thesis by simp
qed

text \<open>
  A document without author and publisher: a line is printed for each of the two
  resource keys.
\<close>

theorem absent_resource_line_counterexample:
  "\<not> carries AUTHOR_ID pages_only
   \<and> query_DBpedia (answering dune_only pages_only None) ''Dune'' =
      ([Urlopen (prefixes_list ! 0 @ ''Antwerp''), Urlopen (prefixes_list ! 0 @ ''dune''),
        Print (results_for (Some ''Dune'')),
        Urlopen ''http://dbpedia.org/data/Dune_(novel).json'',
        Print ''- AUTHOR: not found'', Print ''- AUTHOR_RESOURCE: not found'',
        Print ''- PUBLISHER: not found'', Print ''- PUBLISHER_RESOURCE: not found'',
        Print ''- PUBLICATION DATE: not found'', Print ''- NUMBER OF PAGES: 412'',
        Print ''- GENRE: not found'', Print (''- ABSTRACT: '' @ [CHR 0x0A] @ ''not found'')],
       Inr ())"
  by code_simp

text \<open>
  C6. Given an abstract tagged \<open>en\<close> and one tagged \<open>fr\<close>, the English one is returned. But
  the loop over the abstract's value objects takes an object as soon as any of its fields
  equals \<open>en\<close>, not only its locale tag. Given an English abstract followed by a French
  one whose text is \<open>en\<close>, the French object's value is returned and printed; given that
  French object alone, the abstract is its value and not \<open>not found\<close>.
\<close>

theorem abstract_taken_for_any_field_en:
  "extract_answers two_abstracts
     = Inr (initial_answers\<lparr>ABSTRACT_ANSWER := JStr ''Dune is a 1965 novel.''\<rparr>)
   \<and> extract_answers tagged_abstracts = Inr (initial_answers\<lparr>ABSTRACT_ANSWER := JStr ''en''\<rparr>)
   \<and> extract_answers french_abstract = Inr (initial_answers\<lparr>ABSTRACT_ANSWER := JStr ''en''\<rparr>)
   \<and> Print (''- ABSTRACT: '' @ [CHR 0x0A] @ ''en'')
     \<in> set (fst (query_DBpedia (answering dune_only tagged_abstracts None) ''Dune''))"
  by code_simp

end
